theory Spec2Isabelle
  imports Complex_Main
begin

section \<open>The notebook's data\<close>

text \<open>
  The program is one notebook, \<^verbatim>\<open>lab-01-titan-cohere-embeddings-ragas.ipynb\<close>. Its
  evaluation logic lives in three cells: the cell that prepares the evaluation data
  (\<^verbatim>\<open>questions\<close>, \<^verbatim>\<open>prefix\<close>, \<^verbatim>\<open>ground_truth\<close>, \<^verbatim>\<open>execute_rag\<close>, the \<^verbatim>\<open>datasets\<close> loop), the cell
  that scores the datasets (\<^verbatim>\<open>metrics\<close>, \<^verbatim>\<open>evaluate_kb\<close>, the \<^verbatim>\<open>dfs\<close> loop) and the cell
  that averages the scores (\<^verbatim>\<open>numeric_cols\<close>, \<^verbatim>\<open>display_names\<close>, the \<^verbatim>\<open>means\<close> loop,
  \<^verbatim>\<open>means_df\<close>).

  The notebook has no \<^verbatim>\<open>try\<close>/\<^verbatim>\<open>except\<close> anywhere: an exception raised by a library call
  leaves the function, the loop and the cell that made the call. Exceptions are values
  of the type \<open>error\<close>, and a computation that may raise returns \<open>error + 'a\<close>.
\<close>

datatype error =
  RetrievalError      \<comment> \<open>raised inside the retriever\<close>
  | GenerationError   \<comment> \<open>raised inside the language model call\<close>
  | KeyError          \<comment> \<open>a missing dict key or DataFrame column\<close>
  | IndexError        \<comment> \<open>a list index out of range\<close>
  | ArrowInvalid      \<comment> \<open>\<^verbatim>\<open>Dataset.from_dict\<close> on columns of different lengths\<close>
  | ValueError        \<comment> \<open>the column validation of \<^verbatim>\<open>ragas.evaluate\<close>\<close>

text \<open>
  A knowledge base is the dict returned by \<^verbatim>\<open>create_knowledge_base\<close>; the notebook reads
  its keys \<^verbatim>\<open>'knowledgeBaseId'\<close> and \<^verbatim>\<open>'name'\<close>.
\<close>

record kb =
  knowledgeBaseId :: string
  name :: string

text \<open>
  \<^verbatim>\<open>AmazonKnowledgeBasesRetriever(knowledge_base_id=..., retrieval_config=
  {"vectorSearchConfiguration": {"numberOfResults": 5}})\<close>
\<close>

record retriever =
  knowledge_base_id :: string
  numberOfResults :: nat

definition retrievers :: "kb list \<Rightarrow> retriever list" where
  "retrievers kbs =
     map (\<lambda>kb. \<lparr>knowledge_base_id = knowledgeBaseId kb, numberOfResults = 5\<rparr>) kbs"

record document =
  page_content :: string
  metadata :: string

text \<open>The dict a \<^verbatim>\<open>RetrievalQA\<close> chain returns with \<^verbatim>\<open>return_source_documents=True\<close>.\<close>

record response =
  result :: string
  source_documents :: "document list"

text \<open>
  Calls to the retrieval service and to the language model are effects: they are
  functions of an explicit world state \<open>'s\<close>, which every call returns updated, and
  they may raise.
\<close>

type_synonym 's retrieval_port = "'s \<Rightarrow> retriever \<Rightarrow> string \<Rightarrow> (error + document list) \<times> 's"
type_synonym 's generation_port = "'s \<Rightarrow> string \<Rightarrow> (error + string) \<times> 's"
type_synonym 's chain = "'s \<Rightarrow> string \<Rightarrow> (error + response) \<times> 's"

text \<open>
  \<^verbatim>\<open>RetrievalQA.from_chain_type(llm=llm_for_text_generation, retriever=retriever,
  return_source_documents=True)\<close> followed by \<^verbatim>\<open>.invoke(query)\<close>. The chain is library code:
  it fetches the documents for the query, fills the prompt template with them and the
  query, calls the model, and returns the answer together with the documents it
  fetched, unchanged and in order. An exception of either call leaves the chain. The
  prompt template is a parameter.
\<close>

definition from_chain_type ::
  "'s generation_port \<Rightarrow> 's retrieval_port \<Rightarrow> (document list \<Rightarrow> string \<Rightarrow> string) \<Rightarrow>
   retriever \<Rightarrow> 's chain" where
  "from_chain_type llm retrieve template retriever s query =
     (case retrieve s retriever query of
        (Inl e, s1) \<Rightarrow> (Inl e, s1)
      | (Inr docs, s1) \<Rightarrow>
          (case llm s1 (template docs query) of
             (Inl e, s2) \<Rightarrow> (Inl e, s2)
           | (Inr text, s2) \<Rightarrow> (Inr \<lparr>result = text, source_documents = docs\<rparr>, s2)))"

subsection \<open>The evaluation set\<close>

definition raw_questions :: "string list" where
  "raw_questions =
     [''What was the primary reason for the increase in net cash provided by operating activities for Octank Financial in 2021?'',
      ''In which year did Octank Financial have the highest net cash used in investing activities, and what was the primary reason for this?'',
      ''What was the primary source of cash inflows from financing activities for Octank Financial in 2021?'']"

definition prefix :: string where
  "prefix = ''Keep your answers under 2000 characters in length. Only use information you are sure about from the knowledge base. ''"

text \<open>\<^verbatim>\<open>questions = [prefix + question for question in questions]\<close>\<close>

definition questions :: "string list" where
  "questions = map (\<lambda>question. prefix @ question) raw_questions"

text \<open>The notebook's global list \<^verbatim>\<open>ground_truth\<close>.\<close>

definition ground_truth_list :: "string list" where
  "ground_truth_list =
     [''The increase in net cash provided by operating activities was primarily due to an increase in net income and favorable changes in operating assets and liabilities.'',
      ''Octank Financial had the highest net cash used in investing activities in 2021, at $360 million, compared to $290 million in 2020 and $240 million in 2019. The primary reason for this was an increase in purchases of property, plant, and equipment and marketable securities.'',
      ''The primary source of cash inflows from financing activities for Octank Financial in 2021 was an increase in proceeds from the issuance of common stock and long-term debt.'']"

section \<open>Building the datasets\<close>

text \<open>
  The dict \<^verbatim>\<open>data\<close> that \<^verbatim>\<open>execute_rag\<close> returns: four parallel lists under the keys
  \<^verbatim>\<open>"question"\<close>, \<^verbatim>\<open>"answer"\<close>, \<^verbatim>\<open>"contexts"\<close> and \<^verbatim>\<open>"ground_truth"\<close>.
\<close>

record data =
  question :: "string list"
  answer :: "string list"
  contexts :: "string list list"
  ground_truth :: "string list"

text \<open>
  The loop of \<^verbatim>\<open>execute_rag\<close>:
  \<^verbatim>\<open>
  for query in questions:
      response = qa_chain.invoke(query)
      answers.append(response["result"])
      contexts.append([docs.page_content for docs in response["source_documents"]])
  \<close>
  The two lists being appended to are the accumulators \<open>answers\<close> and \<open>ctxs\<close>.
\<close>

fun invoke_loop ::
  "'s chain \<Rightarrow> string list \<Rightarrow> string list \<Rightarrow> string list list \<Rightarrow> 's \<Rightarrow>
   (error + string list \<times> string list list) \<times> 's" where
  "invoke_loop qa_chain [] answers ctxs s = (Inr (answers, ctxs), s)"
| "invoke_loop qa_chain (query # qs) answers ctxs s =
     (case qa_chain s query of
        (Inl e, s') \<Rightarrow> (Inl e, s')
      | (Inr response, s') \<Rightarrow>
          invoke_loop qa_chain qs
            (answers @ [result response])
            (ctxs @ [map page_content (source_documents response)]) s')"

text \<open>
  \<^verbatim>\<open>execute_rag(retriever)\<close>. It reads the globals \<^verbatim>\<open>questions\<close> and \<^verbatim>\<open>ground_truth\<close>, here the
  parameters \<open>qs\<close> and \<open>gt\<close>; \<open>mk_chain\<close> is \<^verbatim>\<open>RetrievalQA.from_chain_type\<close> with the global
  \<^verbatim>\<open>llm_for_text_generation\<close>.
\<close>

definition execute_rag ::
  "(retriever \<Rightarrow> 's chain) \<Rightarrow> string list \<Rightarrow> string list \<Rightarrow> retriever \<Rightarrow> 's \<Rightarrow>
   (error + string \<times> data) \<times> 's" where
  "execute_rag mk_chain qs gt retriever s =
     (let kb_id = knowledge_base_id retriever;
          qa_chain = mk_chain retriever
      in case invoke_loop qa_chain qs [] [] s of
           (Inl e, s') \<Rightarrow> (Inl e, s')
         | (Inr (answers, ctxs), s') \<Rightarrow>
             (Inr (kb_id, \<lparr>question = qs, answer = answers, contexts = ctxs,
                           ground_truth = gt\<rparr>), s'))"

text \<open>
  A Python dict keeps its keys in insertion order; \<^verbatim>\<open>d[k] = v\<close> replaces the value of a
  key that is present, in place, and appends a new key at the end.
\<close>

primrec dict_set :: "('k \<times> 'v) list \<Rightarrow> 'k \<Rightarrow> 'v \<Rightarrow> ('k \<times> 'v) list" where
  "dict_set [] k v = [(k, v)]"
| "dict_set (p # ps) k v = (if fst p = k then (k, v) # ps else p # dict_set ps k v)"

text \<open>
  \<^verbatim>\<open>Dataset.from_dict(data)\<close> is library code: it builds an Arrow table, which raises when
  the columns do not all have the same length, and otherwise holds the columns as given.
\<close>

definition from_dict :: "data \<Rightarrow> error + data" where
  "from_dict d =
     (if length (answer d) = length (question d) \<and>
         length (contexts d) = length (question d) \<and>
         length (ground_truth d) = length (question d)
      then Inr d else Inl ArrowInvalid)"

text \<open>
  \<^verbatim>\<open>
  datasets = {}
  for retriever in retrievers:
      kb_id, data = execute_rag(retriever)
      datasets[kb_id] = Dataset.from_dict(data)
  \<close>
\<close>

fun build_datasets ::
  "(retriever \<Rightarrow> 's chain) \<Rightarrow> string list \<Rightarrow> string list \<Rightarrow> retriever list \<Rightarrow>
   (string \<times> data) list \<Rightarrow> 's \<Rightarrow> (error + (string \<times> data) list) \<times> 's" where
  "build_datasets mk_chain qs gt [] datasets s = (Inr datasets, s)"
| "build_datasets mk_chain qs gt (retriever # rs) datasets s =
     (case execute_rag mk_chain qs gt retriever s of
        (Inl e, s') \<Rightarrow> (Inl e, s')
      | (Inr (kb_id, d), s') \<Rightarrow>
          (case from_dict d of
             Inl e \<Rightarrow> (Inl e, s')
           | Inr ds \<Rightarrow> build_datasets mk_chain qs gt rs (dict_set datasets kb_id ds) s'))"

section \<open>Scoring the datasets\<close>

datatype metric =
  answer_relevancy | context_precision | context_recall
  | context_entity_recall | answer_similarity | answer_correctness

definition metrics :: "metric list" where
  "metrics = [answer_relevancy, context_precision, context_recall,
              context_entity_recall, answer_similarity, answer_correctness]"

text \<open>One row of a dataset: question, answer, contexts, ground truth.\<close>

type_synonym row = "string \<times> string \<times> string list \<times> string"

definition rows :: "data \<Rightarrow> row list" where
  "rows d = zip (question d) (zip (answer d) (zip (contexts d) (ground_truth d)))"

text \<open>
  The DataFrame of \<^verbatim>\<open>result.to_pandas()\<close>: the rows of the dataset and one column of
  scores per metric. A score is a float or NaN. The floats are the values of the type
  \<open>'v\<close>, of which nothing is assumed; NaN is \<open>None\<close>.
\<close>

record 'v df =
  df_rows :: "row list"
  df_scores :: "(metric \<times> 'v option list) list"

text \<open>
  What one metric does on one row, with the embeddings handed over, is the parameter
  \<open>score\<close>: the scorer raises, or it returns a float or NaN (the library's metrics
  return NaN, for instance, when they fail to parse the output of the judge model).
\<close>

type_synonym ('emb, 'v) scorer = "metric \<Rightarrow> 'emb \<Rightarrow> row \<Rightarrow> error + 'v option"

definition cell_of :: "error + 'v option \<Rightarrow> 'v option" where
  "cell_of outcome = (case outcome of Inl e \<Rightarrow> None | Inr v \<Rightarrow> v)"

fun first_raised :: "(error + 'a) list \<Rightarrow> error option" where
  "first_raised [] = None"
| "first_raised (Inl e # outcomes) = Some e"
| "first_raised (Inr v # outcomes) = first_raised outcomes"

text \<open>
  \<^verbatim>\<open>ragas.evaluate(dataset=..., metrics=..., llm=..., embeddings=..., run_config=...)\<close> is
  library code.
  \<^item> It first validates the types of the columns and raises \<^verbatim>\<open>ValueError\<close> when a column
    is not of strings, or \<^verbatim>\<open>contexts\<close> not of lists of strings. \<^verbatim>\<open>Dataset.from_dict\<close> infers
    the types from the values, so this is what happens to a dataset with no row, and
    to one whose contexts lists are all empty.
  \<^item> It then submits one job per row and metric, row by row. The notebook does not
    pass \<^verbatim>\<open>raise_exceptions\<close>, so the default of the installed library applies: it is the
    parameter \<open>raise_exceptions\<close> (true before ragas 0.1.13, false since). When it is
    true, a scorer that raises ends the evaluation with its exception (here the first
    one in the order of submission); when it is false, the score is NaN.
  \<^item> The result has one score per row of the dataset and per metric passed.
\<close>

definition evaluate ::
  "bool \<Rightarrow> ('emb, 'v) scorer \<Rightarrow> data \<Rightarrow> metric list \<Rightarrow> 'emb \<Rightarrow> error + 'v df" where
  "evaluate raise_exceptions score dataset ms embeddings =
     (if rows dataset = [] \<or> concat (contexts dataset) = [] then Inl ValueError
      else
        case (if raise_exceptions
              then first_raised
                     (concat (map (\<lambda>r. map (\<lambda>m. score m embeddings r) ms) (rows dataset)))
              else None) of
          Some e \<Rightarrow> Inl e
        | None \<Rightarrow>
            Inr \<lparr>df_rows = rows dataset,
                 df_scores =
                   map (\<lambda>m. (m, map (\<lambda>r. cell_of (score m embeddings r)) (rows dataset))) ms\<rparr>)"

text \<open>\<^verbatim>\<open>evaluate_kb(kb, embeddings, datasets, llm_for_evaluation)\<close>; \<^verbatim>\<open>datasets[kb_id]\<close> raises
  on a missing key.\<close>

definition evaluate_kb ::
  "bool \<Rightarrow> ('emb, 'v) scorer \<Rightarrow> kb \<Rightarrow> 'emb \<Rightarrow> (string \<times> data) list \<Rightarrow>
   error + string \<times> 'v df" where
  "evaluate_kb raise_exceptions score kb embeddings datasets =
     (let kb_id = knowledgeBaseId kb
      in case map_of datasets kb_id of
           None \<Rightarrow> Inl KeyError
         | Some dataset \<Rightarrow>
             (case evaluate raise_exceptions score dataset metrics embeddings of
                Inl e \<Rightarrow> Inl e
              | Inr table \<Rightarrow> Inr (kb_id, table)))"

text \<open>
  \<^verbatim>\<open>
  dfs = {}
  for i, kb in enumerate(kbs):
      kb_id, df = evaluate_kb(kb, bedrock_embeddings[i], datasets, llm_for_evaluation)
      dfs[kb_id] = df
  \<close>
  \<^verbatim>\<open>bedrock_embeddings[i]\<close> raises when the list is shorter than \<^verbatim>\<open>kbs\<close>.
\<close>

fun evaluate_loop ::
  "bool \<Rightarrow> ('emb, 'v) scorer \<Rightarrow> 'emb list \<Rightarrow> (string \<times> data) list \<Rightarrow>
   kb list \<Rightarrow> nat \<Rightarrow> (string \<times> 'v df) list \<Rightarrow> error + (string \<times> 'v df) list" where
  "evaluate_loop raise_exceptions score bedrock_embeddings datasets [] i dfs = Inr dfs"
| "evaluate_loop raise_exceptions score bedrock_embeddings datasets (kb # kbs) i dfs =
     (if i < length bedrock_embeddings
      then (case evaluate_kb raise_exceptions score kb (bedrock_embeddings ! i) datasets of
              Inl e \<Rightarrow> Inl e
            | Inr (kb_id, d) \<Rightarrow>
                evaluate_loop raise_exceptions score bedrock_embeddings datasets kbs (Suc i)
                  (dict_set dfs kb_id d))
      else Inl IndexError)"

text \<open>
  The run: the retrievers are made from \<^verbatim>\<open>kbs\<close>, the datasets are built, then scored. An
  exception at any point ends the run.
\<close>

definition run ::
  "bool \<Rightarrow> (retriever \<Rightarrow> 's chain) \<Rightarrow> ('emb, 'v) scorer \<Rightarrow> string list \<Rightarrow>
   string list \<Rightarrow> kb list \<Rightarrow> 'emb list \<Rightarrow> 's \<Rightarrow> (error + (string \<times> 'v df) list) \<times> 's" where
  "run raise_exceptions mk_chain score qs gt kbs bedrock_embeddings s =
     (case build_datasets mk_chain qs gt (retrievers kbs) [] s of
        (Inl e, s') \<Rightarrow> (Inl e, s')
      | (Inr datasets, s') \<Rightarrow>
          (evaluate_loop raise_exceptions score bedrock_embeddings datasets kbs 0 [], s'))"

text \<open>
  The score cells of a table, each with its key: the knowledge base, the metric and the
  question of its row.
\<close>

definition df_cells :: "'v df \<Rightarrow> (metric \<times> string \<times> 'v option) list" where
  "df_cells d =
     concat (map (\<lambda>(m, col). map (\<lambda>(r, v). (m, fst r, v)) (zip (df_rows d) col))
       (df_scores d))"

definition cells :: "(string \<times> 'v df) list \<Rightarrow> (string \<times> metric \<times> string \<times> 'v option) list" where
  "cells dfs = concat (map (\<lambda>(kb_id, d). map (Pair kb_id) (df_cells d)) dfs)"

definition cell_keys :: "(string \<times> 'v df) list \<Rightarrow> (string \<times> metric \<times> string) list" where
  "cell_keys dfs = map (\<lambda>(kb_id, m, q, v). (kb_id, m, q)) (cells dfs)"

section \<open>Averaging the scores\<close>

definition numeric_cols :: "metric list" where
  "numeric_cols = [answer_relevancy, context_precision, context_recall,
                   context_entity_recall, answer_similarity, answer_correctness]"

definition display_names :: "(string \<times> string) list" where
  "display_names =
     [(''amazon-titan-embedding-v2-knowledge-base'', ''Amazon Titan Embedding''),
      (''cohere-embed-english-v3-knowledge-base'', ''Cohere English Embedding'')]"

text \<open>
  The arithmetic of the floats is a parameter: \<open>fzero\<close> is the float 0.0, \<open>fsum\<close> the
  library's sum of an array of floats, \<open>fdiv\<close> its division of a float by a count.
  Nothing is assumed of them, so that what is proved holds of float64, with its rounding
  and its overflow, as it does of exact arithmetic.
\<close>

record 'v arith =
  fzero :: 'v
  fsum :: "'v list \<Rightarrow> 'v"
  fdiv :: "'v \<Rightarrow> nat \<Rightarrow> 'v"

text \<open>The values of the cells of a column that are not NaN, in order.\<close>

fun successes :: "'v option list \<Rightarrow> 'v list" where
  "successes [] = []"
| "successes (None # col) = successes col"
| "successes (Some v # col) = v # successes col"

text \<open>The column with 0.0 in the place of every NaN.\<close>

definition filled :: "'v arith \<Rightarrow> 'v option list \<Rightarrow> 'v list" where
  "filled ar col = map (\<lambda>c. case c of None \<Rightarrow> fzero ar | Some v \<Rightarrow> v) col"

text \<open>
  The mean that \<^verbatim>\<open>DataFrame.mean()\<close> of pandas computes for one column, with its default
  \<^verbatim>\<open>skipna=True\<close>: it counts the cells that are not NaN; when there is none the mean is
  NaN; otherwise it sums the column with 0.0 put in the place of every NaN and divides
  the sum by the count.
\<close>

definition mean :: "'v arith \<Rightarrow> 'v option list \<Rightarrow> 'v option" where
  "mean ar col =
     (if successes col = [] then None
      else Some (fdiv ar (fsum ar (filled ar col)) (length (successes col))))"

text \<open>
  \<^verbatim>\<open>df[numeric_cols].mean()\<close>: selecting a column the frame does not have raises; the
  result has one mean per selected column, in the order of the selection.
\<close>

fun mean_values :: "'v arith \<Rightarrow> 'v df \<Rightarrow> metric list \<Rightarrow> error + (metric \<times> 'v option) list" where
  "mean_values ar d [] = Inr []"
| "mean_values ar d (c # cs) =
     (case map_of (df_scores d) c of
        None \<Rightarrow> Inl KeyError
      | Some col \<Rightarrow>
          (case mean_values ar d cs of
             Inl e \<Rightarrow> Inl e
           | Inr ms \<Rightarrow> Inr ((c, mean ar col) # ms)))"

text \<open>\<^verbatim>\<open>next((kb['name'] for kb in kbs if kb['knowledgeBaseId'] == key), 'Unknown')\<close>\<close>

fun kb_name_of :: "kb list \<Rightarrow> string \<Rightarrow> string" where
  "kb_name_of [] key = ''Unknown''"
| "kb_name_of (kb # kbs) key =
     (if knowledgeBaseId kb = key then name kb else kb_name_of kbs key)"

text \<open>
  \<^verbatim>\<open>
  for key, df in dfs.items():
      mean_values = df[numeric_cols].mean()
      means.append(mean_values)
      kb_name = next(...)
      kb_names.append(kb_name)
  \<close>
\<close>

fun means_loop ::
  "'v arith \<Rightarrow> kb list \<Rightarrow> (string \<times> 'v df) list \<Rightarrow> (metric \<times> 'v option) list list \<Rightarrow>
   string list \<Rightarrow> error + (metric \<times> 'v option) list list \<times> string list" where
  "means_loop ar kbs [] means kb_names = Inr (means, kb_names)"
| "means_loop ar kbs ((key, d) # rest) means kb_names =
     (case mean_values ar d numeric_cols of
        Inl e \<Rightarrow> Inl e
      | Inr mv \<Rightarrow> means_loop ar kbs rest (means @ [mv]) (kb_names @ [kb_name_of kbs key]))"

text \<open>
  The globals the averaging cell reads and writes. \<^verbatim>\<open>means_df\<close> is a frame with one row
  per entry of \<^verbatim>\<open>means\<close>; its index is \<^verbatim>\<open>kb_names\<close> mapped through \<^verbatim>\<open>display_names\<close>, and
  \<^verbatim>\<open>Index.map\<close> with a dict gives NaN (\<open>None\<close>) for a label that is not a key.
\<close>

record 'v globals =
  g_dfs :: "(string \<times> 'v df) list"
  g_kbs :: "kb list"
  g_means :: "(metric \<times> 'v option) list list"
  g_kb_names :: "string list"
  g_means_df :: "(string option \<times> (metric \<times> 'v option) list) list"

text \<open>
  The averaging cell. It starts by rebinding \<^verbatim>\<open>means = []\<close> and \<^verbatim>\<open>kb_names = []\<close>, runs the
  loop, and binds \<^verbatim>\<open>means_df\<close>:
  \<^verbatim>\<open>
  means_df = pd.DataFrame(means, columns=numeric_cols, index=kb_names)
  means_df.index = means_df.index.map(display_names)
  \<close>
\<close>

definition summarize :: "'v arith \<Rightarrow> 'v globals \<Rightarrow> error + 'v globals" where
  "summarize ar g =
     (case means_loop ar (g_kbs g) (g_dfs g) [] [] of
        Inl e \<Rightarrow> Inl e
      | Inr (means, kb_names) \<Rightarrow>
          Inr (g\<lparr>g_means := means, g_kb_names := kb_names,
                 g_means_df := zip (map (map_of display_names) kb_names) means\<rparr>))"

section \<open>Auxiliary notions for the statements\<close>

text \<open>
  The world state in which the loop of \<^verbatim>\<open>execute_rag\<close>, started in state \<open>s\<close> on the
  questions \<open>qs\<close>, makes its call of index \<open>i\<close>: the state that the calls before it
  have left.
\<close>

fun state_before :: "'s chain \<Rightarrow> string list \<Rightarrow> 's \<Rightarrow> nat \<Rightarrow> 's" where
  "state_before qa_chain qs s 0 = s"
| "state_before qa_chain [] s (Suc i) = s"
| "state_before qa_chain (query # qs) s (Suc i) =
     state_before qa_chain qs (snd (qa_chain s query)) i"

text \<open>
  What \<^verbatim>\<open>execute_rag\<close> guarantees of the dict it returns, for the question list \<open>qs\<close> and
  the ground-truth list \<open>gt\<close> it read.
\<close>

definition built :: "string list \<Rightarrow> string list \<Rightarrow> data \<Rightarrow> bool" where
  "built qs gt d \<longleftrightarrow>
     question d = qs \<and> ground_truth d = gt \<and>
     length (answer d) = length qs \<and> length (contexts d) = length qs"


text \<open>The number of NaN cells in the column of a metric.\<close>

definition error_cells :: "'v df \<Rightarrow> metric \<Rightarrow> nat" where
  "error_cells d m =
     (case map_of (df_scores d) m of
        None \<Rightarrow> 0
      | Some col \<Rightarrow> length (filter (\<lambda>c. c = None) col))"

text \<open>Exact arithmetic on the reals.\<close>

definition exact :: "real arith" where
  "exact = \<lparr>fzero = 0, fsum = sum_list, fdiv = (\<lambda>x n. x / real n)\<rparr>"

section \<open>Concrete inputs\<close>

text \<open>
  Two knowledge bases, chains, scorers and ports that always answer or always raise,
  and small score tables, on which the theorems are instantiated. The scores are
  fractions that float64 holds exactly.
\<close>

definition kb_A :: kb where
  "kb_A = \<lparr>knowledgeBaseId = ''KBA'', name = ''amazon-titan-embedding-v2-knowledge-base''\<rparr>"

definition kb_B :: kb where
  "kb_B = \<lparr>knowledgeBaseId = ''KBB'', name = ''cohere-embed-english-v3-knowledge-base''\<rparr>"

definition retriever_A :: retriever where
  "retriever_A = \<lparr>knowledge_base_id = ''KBA'', numberOfResults = 5\<rparr>"

definition chain_ok :: "retriever \<Rightarrow> unit chain" where
  "chain_ok r s q =
     (Inr \<lparr>result = ''answer'',
           source_documents = [\<lparr>page_content = ''chunk'', metadata = ''''\<rparr>]\<rparr>, s)"

definition chain_fails :: "retriever \<Rightarrow> unit chain" where
  "chain_fails r s q = (Inl RetrievalError, s)"

text \<open>A chain with state: it counts its calls, answers with the count and returns the
  query as its only source document.\<close>

definition chain_numbered :: "retriever \<Rightarrow> nat chain" where
  "chain_numbered r n q =
     (Inr \<lparr>result = replicate n (CHR ''x''),
           source_documents = [\<lparr>page_content = q, metadata = ''''\<rparr>]\<rparr>, Suc n)"

definition score_const :: "(nat, real) scorer" where
  "score_const m emb r = Inr (Some (3 / 4))"



definition three_rows :: "row list" where
  "three_rows = [(''q1'', ''a1'', [''c1''], ''g1''), (''q2'', ''a2'', [''c2''], ''g2''),
                 (''q3'', ''a3'', [''c3''], ''g3'')]"

definition df_of :: "real option list \<Rightarrow> real df" where
  "df_of col = \<lparr>df_rows = three_rows, df_scores = map (\<lambda>m. (m, col)) metrics\<rparr>"

definition globals_of :: "(string \<times> real df) list \<Rightarrow> real globals" where
  "globals_of dfs =
     \<lparr>g_dfs = dfs, g_kbs = [kb_A, kb_B], g_means = [], g_kb_names = [], g_means_df = []\<rparr>"

definition const_row :: "real \<Rightarrow> (metric \<times> real option) list" where
  "const_row v = map (\<lambda>m. (m, Some v)) numeric_cols"

definition llm_ok :: "unit generation_port" where
  "llm_ok s p = (Inr ''answer'', s)"

definition template_stuff :: "document list \<Rightarrow> string \<Rightarrow> string" where
  "template_stuff docs q = concat (map page_content docs) @ q"

definition retrieve_nothing :: "unit retrieval_port" where
  "retrieve_nothing s r q = (Inr [], s)"




text \<open>
  Ports whose state counts the chain calls that have returned: the model call
  increments it. At the call of index 1 the retrieval raises, or returns no document,
  or the model call raises.
\<close>

definition one_document :: "document list" where
  "one_document = [\<lparr>page_content = ''chunk'', metadata = ''''\<rparr>]"

definition retrieve_always :: "nat retrieval_port" where
  "retrieve_always n r q = (Inr one_document, n)"

definition retrieve_raises_at_1 :: "nat retrieval_port" where
  "retrieve_raises_at_1 n r q = (if n = 1 then (Inl RetrievalError, n) else (Inr one_document, n))"

definition retrieve_empty_at_1 :: "nat retrieval_port" where
  "retrieve_empty_at_1 n r q = (if n = 1 then (Inr [], n) else (Inr one_document, n))"

definition llm_counting :: "nat generation_port" where
  "llm_counting n p = (Inr ''answer'', Suc n)"

definition llm_raises_at_1 :: "nat generation_port" where
  "llm_raises_at_1 n p = (if n = 1 then (Inl GenerationError, n) else (Inr ''answer'', Suc n))"


section \<open>The loop of execute_rag\<close>

lemma invoke_loop_append:
  "invoke_loop qa qs as cs s = (Inr (a, c), s') \<Longrightarrow>
   \<exists>a' c'. a = as @ a' \<and> c = cs @ c' \<and> length a' = length qs \<and> length c' = length qs"
proof (induction qs arbitrary: as cs s)
  case Nil
  then show ?case by simp
next
  case (Cons q qs)
  from Cons.prems obtain r s1 where
    step: "qa s q = (Inr r, s1)" and
    rest: "invoke_loop qa qs (as @ [result r]) (cs @ [map page_content (source_documents r)]) s1
             = (Inr (a, c), s')"
    by (auto split: prod.splits sum.splits)
  from Cons.IH [OF rest] show ?case by auto
qed

lemma invoke_loop_nth:
  "invoke_loop qa qs as cs s = (Inr (a, c), s') \<Longrightarrow> i < length qs \<Longrightarrow>
   \<exists>r. fst (qa (state_before qa qs s i) (qs ! i)) = Inr r \<and>
       a ! (length as + i) = result r \<and>
       c ! (length cs + i) = map page_content (source_documents r)"
proof (induction qs arbitrary: as cs s i)
  case Nil
  then show ?case by simp
next
  case (Cons q qs)
  from Cons.prems(1) obtain r s1 where
    step: "qa s q = (Inr r, s1)" and
    rest: "invoke_loop qa qs (as @ [result r]) (cs @ [map page_content (source_documents r)]) s1
             = (Inr (a, c), s')"
    by (auto split: prod.splits sum.splits)
  show ?case
  proof (cases i)
    case 0
    from invoke_loop_append [OF rest] obtain a' c' where
      "a = (as @ [result r]) @ a'" "c = (cs @ [map page_content (source_documents r)]) @ c'"
      by blast
    with 0 step show ?thesis by (simp add: nth_append)
  next
    case (Suc j)
    with Cons.prems(2) have "j < length qs" by simp
    from Cons.IH [OF rest this] Suc step show ?thesis by simp
  qed
qed

lemma invoke_loop_Inl:
  "fst (invoke_loop qa qs as cs s) = Inl e \<Longrightarrow>
   \<exists>i<length qs. fst (qa (state_before qa qs s i) (qs ! i)) = Inl e"
proof (induction qs arbitrary: as cs s)
  case Nil
  then show ?case by simp
next
  case (Cons q qs)
  show ?case
  proof (cases "fst (qa s q)")
    case (Inl e')
    with Cons.prems have "e' = e" by (auto split: prod.splits sum.splits)
    with Inl have "fst (qa (state_before qa (q # qs) s 0) ((q # qs) ! 0)) = Inl e" by simp
    then show ?thesis by blast
  next
    case (Inr r)
    then obtain s1 where step: "qa s q = (Inr r, s1)" by (cases "qa s q") auto
    with Cons.prems have
      "fst (invoke_loop qa qs (as @ [result r]) (cs @ [map page_content (source_documents r)]) s1) = Inl e"
      by simp
    from Cons.IH [OF this] obtain i where
      "i < length qs" "fst (qa (state_before qa qs s1 i) (qs ! i)) = Inl e" by blast
    with step have "Suc i < length (q # qs) \<and>
      fst (qa (state_before qa (q # qs) s (Suc i)) ((q # qs) ! Suc i)) = Inl e" by simp
    then show ?thesis by blast
  qed
qed

text \<open>The first call that raises ends the loop with its exception.\<close>
lemma invoke_loop_first_failure:
  "i < length qs \<Longrightarrow>
   \<forall>j<i. \<exists>r. fst (qa (state_before qa qs s j) (qs ! j)) = Inr r \<Longrightarrow>
   fst (qa (state_before qa qs s i) (qs ! i)) = Inl e \<Longrightarrow>
   fst (invoke_loop qa qs as cs s) = Inl e"
proof (induction qs arbitrary: as cs s i)
  case Nil
  then show ?case by simp
next
  case (Cons q qs)
  show ?case
  proof (cases i)
    case 0
    with Cons.prems(3) show ?thesis by (auto split: prod.splits sum.splits)
  next
    case (Suc k)
    with Cons.prems(2) have "\<exists>r. fst (qa (state_before qa (q # qs) s 0) ((q # qs) ! 0)) = Inr r"
      by blast
    then obtain r s1 where step: "qa s q = (Inr r, s1)" by (cases "qa s q") auto
    have early: "\<forall>j<k. \<exists>r. fst (qa (state_before qa qs s1 j) (qs ! j)) = Inr r"
    proof (intro allI impI)
      fix j assume "j < k"
      then have "Suc j < i" using Suc by simp
      with Cons.prems(2) have
        "\<exists>r. fst (qa (state_before qa (q # qs) s (Suc j)) ((q # qs) ! Suc j)) = Inr r" by blast
      with step show "\<exists>r. fst (qa (state_before qa qs s1 j) (qs ! j)) = Inr r" by simp
    qed
    from Cons.prems(1) Suc have klt: "k < length qs" by simp
    from Cons.prems(3) Suc step have
      "fst (qa (state_before qa qs s1 k) (qs ! k)) = Inl e" by simp
    from Cons.IH [OF klt early this] step show ?thesis by simp
  qed
qed

lemma invoke_loop_all_succeed:
  "\<forall>i<length qs. \<exists>r. fst (qa (state_before qa qs s i) (qs ! i)) = Inr r \<Longrightarrow>
   \<exists>a c s'. invoke_loop qa qs as cs s = (Inr (a, c), s')"
proof -
  assume ok: "\<forall>i<length qs. \<exists>r. fst (qa (state_before qa qs s i) (qs ! i)) = Inr r"
  obtain x s' where res: "invoke_loop qa qs as cs s = (x, s')" by (cases "invoke_loop qa qs as cs s")
  show ?thesis
  proof (cases x)
    case (Inl e)
    with res have "fst (invoke_loop qa qs as cs s) = Inl e" by simp
    from invoke_loop_Inl [OF this] ok show ?thesis by auto
  next
    case (Inr p)
    with res show ?thesis by (cases p) auto
  qed
qed

section \<open>The datasets\<close>

lemma execute_rag_Inr:
  "execute_rag mk qs gt r s = (Inr (k, d), s') \<Longrightarrow>
   k = knowledge_base_id r \<and> question d = qs \<and> ground_truth d = gt \<and>
   length (answer d) = length qs \<and> length (contexts d) = length qs"
proof -
  assume ex: "execute_rag mk qs gt r s = (Inr (k, d), s')"
  then obtain a c where
    loop: "invoke_loop (mk r) qs [] [] s = (Inr (a, c), s')" and
    d: "d = \<lparr>question = qs, answer = a, contexts = c, ground_truth = gt\<rparr>" and
    k: "k = knowledge_base_id r"
    by (auto simp: execute_rag_def Let_def split: prod.splits sum.splits)
  from invoke_loop_append [OF loop] have "length a = length qs" "length c = length qs" by auto
  with d k show ?thesis by simp
qed

lemma execute_rag_Inl:
  "fst (execute_rag mk qs gt r s) = Inl e \<longleftrightarrow> fst (invoke_loop (mk r) qs [] [] s) = Inl e"
  by (auto simp: execute_rag_def Let_def split: prod.splits sum.splits)

lemma dict_set_fresh: "k \<notin> fst ` set ps \<Longrightarrow> dict_set ps k v = ps @ [(k, v)]"
  by (induction ps) auto

lemma set_dict_set: "set (dict_set ps k v) \<subseteq> insert (k, v) (set ps)"
  by (induction ps) auto

lemma from_dict_Inr: "from_dict d = Inr ds \<Longrightarrow> ds = d"
  by (auto simp: from_dict_def split: if_splits)

lemma from_dict_aligned:
  "length (answer d) = length (question d) \<Longrightarrow> length (contexts d) = length (question d) \<Longrightarrow>
   length (ground_truth d) = length (question d) \<Longrightarrow> from_dict d = Inr d"
  by (simp add: from_dict_def)

lemma build_datasets_members:
  "build_datasets mk qs gt rs acc s = (Inr ds, s') \<Longrightarrow> (k, d) \<in> set ds \<Longrightarrow>
   (k, d) \<in> set acc \<or> (k \<in> knowledge_base_id ` set rs \<and> built qs gt d)"
proof (induction rs arbitrary: acc s)
  case Nil
  then show ?case by simp
next
  case (Cons r rs)
  from Cons.prems(1) obtain k1 d1 s1 where
    ex: "execute_rag mk qs gt r s = (Inr (k1, d1), s1)" and
    fd: "from_dict d1 = Inr d1" and
    rest: "build_datasets mk qs gt rs (dict_set acc k1 d1) s1 = (Inr ds, s')"
    by (auto split: prod.splits sum.splits dest: from_dict_Inr)
  from Cons.IH [OF rest Cons.prems(2)] consider
    "(k, d) \<in> set (dict_set acc k1 d1)" | "k \<in> knowledge_base_id ` set rs \<and> built qs gt d"
    by blast
  then show ?case
  proof cases
    case 1
    with set_dict_set [of acc k1 d1] have "(k, d) = (k1, d1) \<or> (k, d) \<in> set acc" by blast
    with execute_rag_Inr [OF ex] show ?thesis by (auto simp: built_def)
  next
    case 2
    then show ?thesis by auto
  qed
qed

lemma build_datasets_shape:
  "build_datasets mk qs gt rs acc s = (Inr ds, s') \<Longrightarrow>
   distinct (map knowledge_base_id rs) \<Longrightarrow>
   knowledge_base_id ` set rs \<inter> fst ` set acc = {} \<Longrightarrow>
   \<exists>new. ds = acc @ new \<and> map fst new = map knowledge_base_id rs \<and>
         (\<forall>d \<in> snd ` set new. built qs gt d)"
proof (induction rs arbitrary: acc s)
  case Nil
  then show ?case by simp
next
  case (Cons r rs)
  from Cons.prems(1) obtain k1 d1 s1 where
    ex: "execute_rag mk qs gt r s = (Inr (k1, d1), s1)" and
    rest: "build_datasets mk qs gt rs (dict_set acc k1 d1) s1 = (Inr ds, s')"
    by (auto split: prod.splits sum.splits dest: from_dict_Inr)
  from execute_rag_Inr [OF ex] have k1: "k1 = knowledge_base_id r" and b1: "built qs gt d1"
    by (auto simp: built_def)
  from Cons.prems(3) k1 have "k1 \<notin> fst ` set acc" by auto
  then have upd: "dict_set acc k1 d1 = acc @ [(k1, d1)]" by (rule dict_set_fresh)
  have d: "distinct (map knowledge_base_id rs)" using Cons.prems(2) by simp
  have disj: "knowledge_base_id ` set rs \<inter> fst ` set (dict_set acc k1 d1) = {}"
    using Cons.prems(2,3) k1 upd by auto
  from Cons.IH [OF rest d disj] obtain new where
    new: "ds = dict_set acc k1 d1 @ new" "map fst new = map knowledge_base_id rs"
      "\<forall>d \<in> snd ` set new. built qs gt d" by blast
  let ?new = "(k1, d1) # new"
  have "ds = acc @ ?new \<and> map fst ?new = map knowledge_base_id (r # rs) \<and>
        (\<forall>d \<in> snd ` set ?new. built qs gt d)"
    using new upd k1 b1 by simp
  then show ?case by blast
qed

text \<open>A build phase that returns has built every record; one that raises has a chain
  call that raised.\<close>
lemma build_datasets_Inl:
  "fst (build_datasets mk qs gt rs acc s) = Inl e \<Longrightarrow>
   e = ArrowInvalid \<and> length gt \<noteq> length qs \<or>
   (\<exists>r \<in> set rs. \<exists>s1 q. q \<in> set qs \<and> fst (mk r s1 q) = Inl e)"
proof (induction rs arbitrary: acc s)
  case Nil
  then show ?case by simp
next
  case (Cons r rs)
  obtain x s1 where ex: "execute_rag mk qs gt r s = (x, s1)" by (cases "execute_rag mk qs gt r s")
  show ?case
  proof (cases x)
    case (Inl e')
    with ex Cons.prems have "e' = e" by simp
    with Inl ex have "fst (invoke_loop (mk r) qs [] [] s) = Inl e"
      using execute_rag_Inl [of mk qs gt r s e] by simp
    from invoke_loop_Inl [OF this] obtain i where
      "i < length qs" "fst (mk r (state_before (mk r) qs s i) (qs ! i)) = Inl e" by blast
    then have "qs ! i \<in> set qs \<and> fst (mk r (state_before (mk r) qs s i) (qs ! i)) = Inl e" by simp
    then show ?thesis by auto
  next
    case (Inr p)
    obtain k1 d1 where p: "p = (k1, d1)" by (cases p)
    from execute_rag_Inr [of mk qs gt r s k1 d1 s1] ex Inr p have b: "built qs gt d1"
      by (simp add: built_def)
    show ?thesis
    proof (cases "from_dict d1")
      case (Inl e')
      with ex Inr p Cons.prems have "e' = e" by simp
      with Inl b have "e = ArrowInvalid \<and> length gt \<noteq> length qs"
        by (auto simp: from_dict_def built_def split: if_splits)
      then show ?thesis by simp
    next
      case (Inr ds1)
      with ex \<open>x = Inr p\<close> p Cons.prems have
        "fst (build_datasets mk qs gt rs (dict_set acc k1 ds1) s1) = Inl e" by simp
      from Cons.IH [OF this] show ?thesis by auto
    qed
  qed
qed

section \<open>The score tables\<close>

lemma retrievers_ids: "map knowledge_base_id (retrievers kbs) = map knowledgeBaseId kbs"
  by (simp add: retrievers_def comp_def)

lemma rows_built:
  "built qs gt d \<Longrightarrow> length gt = length qs \<Longrightarrow> map fst (rows d) = qs"
  by (simp add: built_def rows_def)

lemma first_raised_None: "first_raised outcomes = None \<longleftrightarrow> (\<forall>e. Inl e \<notin> set outcomes)"
  by (induction outcomes rule: first_raised.induct) auto

lemma no_Inl_concat:
  "(\<forall>e. Inl e \<notin> set (concat (map (\<lambda>r. map (\<lambda>m. g m r) ms) rs))) \<longleftrightarrow>
   (\<forall>r \<in> set rs. \<forall>m \<in> set ms. \<forall>e. g m r \<noteq> Inl e)"
proof
  assume a: "\<forall>e. Inl e \<notin> set (concat (map (\<lambda>r. map (\<lambda>m. g m r) ms) rs))"
  show "\<forall>r \<in> set rs. \<forall>m \<in> set ms. \<forall>e. g m r \<noteq> Inl e"
  proof (intro ballI allI notI)
    fix r m e
    assume r: "r \<in> set rs" and m: "m \<in> set ms" and eq: "g m r = Inl e"
    from r m have "g m r \<in> set (concat (map (\<lambda>r. map (\<lambda>m. g m r) ms) rs))"
      by (simp, blast)
    with eq a show False by simp
  qed
next
  assume a: "\<forall>r \<in> set rs. \<forall>m \<in> set ms. \<forall>e. g m r \<noteq> Inl e"
  show "\<forall>e. Inl e \<notin> set (concat (map (\<lambda>r. map (\<lambda>m. g m r) ms) rs))"
  proof (intro allI notI)
    fix e
    assume "Inl e \<in> set (concat (map (\<lambda>r. map (\<lambda>m. g m r) ms) rs))"
    then obtain r m where "r \<in> set rs" "m \<in> set ms" "g m r = Inl e" by auto
    with a show False by blast
  qed
qed

text \<open>What the evaluation returns when it returns, and when it does.\<close>

lemma evaluate_Inr:
  "evaluate rx score d ms emb = Inr f \<Longrightarrow>
   df_rows f = rows d \<and>
   df_scores f = map (\<lambda>m. (m, map (\<lambda>r. cell_of (score m emb r)) (rows d))) ms"
  by (auto simp: evaluate_def split: if_splits option.splits)

lemma evaluate_returns:
  "(\<exists>f. evaluate rx score d ms emb = Inr f) \<longleftrightarrow>
   rows d \<noteq> [] \<and> concat (contexts d) \<noteq> [] \<and>
   (rx \<longrightarrow> (\<forall>r \<in> set (rows d). \<forall>m \<in> set ms. \<forall>e. score m emb r \<noteq> Inl e))"
proof (cases "rows d = [] \<or> concat (contexts d) = []")
  case True
  then show ?thesis by (auto simp: evaluate_def)
next
  case False
  show ?thesis
  proof (cases rx)
    case False
    with \<open>\<not> (rows d = [] \<or> concat (contexts d) = [])\<close> show ?thesis
      by (simp add: evaluate_def)
  next
    case True
    let ?os = "concat (map (\<lambda>r. map (\<lambda>m. score m emb r) ms) (rows d))"
    have "(\<exists>f. evaluate rx score d ms emb = Inr f) \<longleftrightarrow> first_raised ?os = None"
      using True \<open>\<not> (rows d = [] \<or> concat (contexts d) = [])\<close>
      by (auto simp: evaluate_def split: option.splits)
    also have "\<dots> \<longleftrightarrow> (\<forall>e. Inl e \<notin> set ?os)" by (rule first_raised_None)
    also have "\<dots> \<longleftrightarrow> (\<forall>r \<in> set (rows d). \<forall>m \<in> set ms. \<forall>e. score m emb r \<noteq> Inl e)"
      by (rule no_Inl_concat [of "\<lambda>m r. score m emb r"])
    finally show ?thesis using True \<open>\<not> (rows d = [] \<or> concat (contexts d) = [])\<close> by simp
  qed
qed

lemma df_cells_evaluate:
  assumes "evaluate rx score d ms emb = Inr f"
  shows "map (\<lambda>(m, q, v). (m, q)) (df_cells f) = List.product ms (map fst (rows d))"
proof -
  have "map (\<lambda>(m, q, v). (m, q))
          (concat (map (\<lambda>(m, col). map (\<lambda>(r, v). (m, fst r, v)) (zip (rows d) col))
             (map (\<lambda>m. (m, map (\<lambda>r. cell_of (score m emb r)) (rows d))) ms)))
        = List.product ms (map fst (rows d))"
    by (induction ms) (simp_all add: zip_map2 zip_same_conv_map comp_def)
  with evaluate_Inr [OF assms] show ?thesis by (simp add: df_cells_def)
qed

lemma product_concat: "List.product xs ys = concat (map (\<lambda>x. map (Pair x) ys) xs)"
  by (induction xs) simp_all

lemma cell_keys_Nil: "cell_keys [] = []"
  by (simp add: cell_keys_def cells_def)

lemma cell_keys_Cons:
  "cell_keys ((k, d) # dfs) = map (Pair k) (map (\<lambda>(m, q, v). (m, q)) (df_cells d)) @ cell_keys dfs"
  by (simp add: cell_keys_def cells_def comp_def case_prod_unfold)

lemma cell_keys_product:
  "\<forall>d \<in> snd ` set dfs. map (\<lambda>(m, q, v). (m, q)) (df_cells d) = P \<Longrightarrow>
   cell_keys dfs = List.product (map fst dfs) P"
proof (induction dfs)
  case Nil
  show ?case by (simp add: cell_keys_Nil)
next
  case (Cons p dfs)
  obtain k d where p: "p = (k, d)" by (cases p)
  from Cons.prems p have "map (\<lambda>(m, q, v). (m, q)) (df_cells d) = P" by simp
  moreover from Cons have "cell_keys dfs = List.product (map fst dfs) P" by simp
  ultimately show ?case using p by (simp add: cell_keys_Cons)
qed

lemma length_cell_keys: "length (cell_keys dfs) = length (cells dfs)"
  by (simp add: cell_keys_def)

text \<open>One step of the loop over \<^verbatim>\<open>kbs\<close>.\<close>

lemma evaluate_loop_step:
  "evaluate_loop rx score embs datasets (kb # kbs) i acc = Inr dfs \<longleftrightarrow>
   i < length embs \<and>
   (\<exists>d f. map_of datasets (knowledgeBaseId kb) = Some d \<and>
          evaluate rx score d metrics (embs ! i) = Inr f \<and>
          evaluate_loop rx score embs datasets kbs (Suc i)
            (dict_set acc (knowledgeBaseId kb) f) = Inr dfs)"
  by (auto simp: evaluate_kb_def Let_def split: option.splits sum.splits)

lemma evaluate_loop_shape:
  "evaluate_loop rx score embs datasets kbs i acc = Inr dfs \<Longrightarrow>
   distinct (map knowledgeBaseId kbs) \<Longrightarrow>
   knowledgeBaseId ` set kbs \<inter> fst ` set acc = {} \<Longrightarrow>
   \<exists>new. dfs = acc @ new \<and> map fst new = map knowledgeBaseId kbs \<and>
         (\<forall>f \<in> snd ` set new.
            \<exists>d emb. d \<in> snd ` set datasets \<and> evaluate rx score d metrics emb = Inr f)"
proof (induction kbs arbitrary: i acc)
  case Nil
  then show ?case by simp
next
  case (Cons kb kbs)
  let ?k = "knowledgeBaseId kb"
  from Cons.prems(1) obtain d f where
    d: "map_of datasets ?k = Some d" and
    f: "evaluate rx score d metrics (embs ! i) = Inr f" and
    rest: "evaluate_loop rx score embs datasets kbs (Suc i) (dict_set acc ?k f) = Inr dfs"
    unfolding evaluate_loop_step by blast
  from Cons.prems(3) have "?k \<notin> fst ` set acc" by auto
  then have upd: "dict_set acc ?k f = acc @ [(?k, f)]" by (rule dict_set_fresh)
  have d': "distinct (map knowledgeBaseId kbs)" using Cons.prems(2) by simp
  have disj: "knowledgeBaseId ` set kbs \<inter> fst ` set (dict_set acc ?k f) = {}"
    using Cons.prems(2,3) upd by auto
  from Cons.IH [OF rest d' disj] obtain new where
    new: "dfs = dict_set acc ?k f @ new" "map fst new = map knowledgeBaseId kbs"
      "\<forall>f \<in> snd ` set new.
         \<exists>d emb. d \<in> snd ` set datasets \<and> evaluate rx score d metrics emb = Inr f"
    by blast
  from map_of_SomeD [OF d] have din: "d \<in> snd ` set datasets" by force
  let ?new = "(?k, f) # new"
  have "dfs = acc @ ?new" using new(1) upd by simp
  moreover have "map fst ?new = map knowledgeBaseId (kb # kbs)" using new(2) by simp
  moreover have "\<forall>f \<in> snd ` set ?new.
      \<exists>d emb. d \<in> snd ` set datasets \<and> evaluate rx score d metrics emb = Inr f"
    using new(3) din f by auto
  ultimately show ?case by blast
qed

text \<open>The loop returns exactly when every knowledge base has an embeddings entry and a
  dataset, and the evaluation of that dataset returns.\<close>

lemma evaluate_loop_returns:
  "(\<exists>dfs. evaluate_loop rx score embs datasets kbs i acc = Inr dfs) \<longleftrightarrow>
   (\<forall>j<length kbs. i + j < length embs \<and>
      (\<exists>d f. map_of datasets (knowledgeBaseId (kbs ! j)) = Some d \<and>
             evaluate rx score d metrics (embs ! (i + j)) = Inr f))"
proof (induction kbs arbitrary: i acc)
  case Nil
  show ?case by simp
next
  case (Cons kb kbs)
  let ?P = "\<lambda>i kbs j. i + j < length embs \<and>
      (\<exists>d f. map_of datasets (knowledgeBaseId (kbs ! j)) = Some d \<and>
             evaluate rx score d metrics (embs ! (i + j)) = Inr f)"
  have split: "(\<forall>j<length (kb # kbs). ?P i (kb # kbs) j) \<longleftrightarrow>
               ?P i (kb # kbs) 0 \<and> (\<forall>j<length kbs. ?P (Suc i) kbs j)"
  proof
    assume a: "\<forall>j<length (kb # kbs). ?P i (kb # kbs) j"
    then have "0 < length (kb # kbs) \<longrightarrow> ?P i (kb # kbs) 0" by blast
    then have "?P i (kb # kbs) 0" by simp
    moreover have "\<forall>j<length kbs. ?P (Suc i) kbs j"
    proof (intro allI impI)
      fix j assume "j < length kbs"
      then have "Suc j < length (kb # kbs)" by simp
      with a have "?P i (kb # kbs) (Suc j)" by blast
      then show "?P (Suc i) kbs j" by simp
    qed
    ultimately show "?P i (kb # kbs) 0 \<and> (\<forall>j<length kbs. ?P (Suc i) kbs j)" by blast
  next
    assume a: "?P i (kb # kbs) 0 \<and> (\<forall>j<length kbs. ?P (Suc i) kbs j)"
    show "\<forall>j<length (kb # kbs). ?P i (kb # kbs) j"
    proof (intro allI impI)
      fix j assume j: "j < length (kb # kbs)"
      show "?P i (kb # kbs) j"
      proof (cases j)
        case 0
        with a show ?thesis by simp
      next
        case (Suc j')
        with j have "j' < length kbs" by simp
        with a have "?P (Suc i) kbs j'" by blast
        with Suc show ?thesis by simp
      qed
    qed
  qed
  have "(\<exists>dfs. evaluate_loop rx score embs datasets (kb # kbs) i acc = Inr dfs) \<longleftrightarrow>
        i < length embs \<and>
        (\<exists>d f. map_of datasets (knowledgeBaseId kb) = Some d \<and>
               evaluate rx score d metrics (embs ! i) = Inr f \<and>
               (\<exists>dfs. evaluate_loop rx score embs datasets kbs (Suc i)
                        (dict_set acc (knowledgeBaseId kb) f) = Inr dfs))"
    unfolding evaluate_loop_step by blast
  also have "\<dots> \<longleftrightarrow> i < length embs \<and>
        (\<exists>d f. map_of datasets (knowledgeBaseId kb) = Some d \<and>
               evaluate rx score d metrics (embs ! i) = Inr f \<and>
               (\<forall>j<length kbs. ?P (Suc i) kbs j))"
    unfolding Cons.IH ..
  also have "\<dots> \<longleftrightarrow> ?P i (kb # kbs) 0 \<and> (\<forall>j<length kbs. ?P (Suc i) kbs j)"
    by auto
  finally show ?case unfolding split .
qed

lemma run_build_failure:
  "fst (build_datasets mk qs gt (retrievers kbs) [] s) = Inl e \<Longrightarrow>
   fst (run rx mk score qs gt kbs embs s) = Inl e"
  by (auto simp: run_def split: prod.splits sum.splits)

lemma run_Inr:
  "fst (run rx mk score qs gt kbs embs s) = Inr dfs \<longleftrightarrow>
   (\<exists>datasets. fst (build_datasets mk qs gt (retrievers kbs) [] s) = Inr datasets \<and>
      evaluate_loop rx score embs datasets kbs 0 [] = Inr dfs)"
  by (auto simp: run_def split: prod.splits sum.splits)

text \<open>The run returns exactly when the build phase returns, every knowledge base has an
  embeddings entry, and the evaluation of every knowledge base's dataset returns.\<close>

lemma run_returns:
  "(\<exists>dfs. fst (run rx mk score qs gt kbs embs s) = Inr dfs) \<longleftrightarrow>
   (\<exists>datasets. fst (build_datasets mk qs gt (retrievers kbs) [] s) = Inr datasets \<and>
      length kbs \<le> length embs \<and>
      (\<forall>j<length kbs. \<exists>d f. map_of datasets (knowledgeBaseId (kbs ! j)) = Some d \<and>
                            evaluate rx score d metrics (embs ! j) = Inr f))"
proof -
  have len: "(\<forall>j<length kbs. j < length embs) \<longleftrightarrow> length kbs \<le> length embs"
  proof
    assume a: "\<forall>j<length kbs. j < length embs"
    show "length kbs \<le> length embs"
    proof (cases "length kbs")
      case 0
      then show ?thesis by simp
    next
      case (Suc n)
      with a have "n < length embs" by simp
      with Suc show ?thesis by simp
    qed
  next
    assume "length kbs \<le> length embs"
    then show "\<forall>j<length kbs. j < length embs" by simp
  qed
  have "(\<exists>dfs. fst (run rx mk score qs gt kbs embs s) = Inr dfs) \<longleftrightarrow>
        (\<exists>datasets. fst (build_datasets mk qs gt (retrievers kbs) [] s) = Inr datasets \<and>
           (\<exists>dfs. evaluate_loop rx score embs datasets kbs 0 [] = Inr dfs))"
    unfolding run_Inr by blast
  also have "\<dots> \<longleftrightarrow>
        (\<exists>datasets. fst (build_datasets mk qs gt (retrievers kbs) [] s) = Inr datasets \<and>
           (\<forall>j<length kbs. j < length embs \<and>
              (\<exists>d f. map_of datasets (knowledgeBaseId (kbs ! j)) = Some d \<and>
                     evaluate rx score d metrics (embs ! j) = Inr f)))"
    unfolding evaluate_loop_returns by simp
  also have "\<dots> \<longleftrightarrow>
        (\<exists>datasets. fst (build_datasets mk qs gt (retrievers kbs) [] s) = Inr datasets \<and>
           length kbs \<le> length embs \<and>
           (\<forall>j<length kbs. \<exists>d f. map_of datasets (knowledgeBaseId (kbs ! j)) = Some d \<and>
                                 evaluate rx score d metrics (embs ! j) = Inr f))"
    using len by blast
  finally show ?thesis .
qed

lemma build_datasets_result:
  assumes "fst (build_datasets mk qs gt (retrievers kbs) [] s) = Inr datasets"
    and "distinct (map knowledgeBaseId kbs)"
  shows "map fst datasets = map knowledgeBaseId kbs \<and> (\<forall>d \<in> snd ` set datasets. built qs gt d)"
proof -
  from assms(1) obtain s' where
    b: "build_datasets mk qs gt (retrievers kbs) [] s = (Inr datasets, s')"
    by (cases "build_datasets mk qs gt (retrievers kbs) [] s") auto
  from build_datasets_shape [OF b] assms(2) show ?thesis by (auto simp: retrievers_ids)
qed

lemma run_shape:
  assumes r: "fst (run rx mk score qs gt kbs embs s) = Inr dfs"
    and ids: "distinct (map knowledgeBaseId kbs)"
  shows "map fst dfs = map knowledgeBaseId kbs \<and>
         (\<forall>f \<in> snd ` set dfs.
            \<exists>d emb. built qs gt d \<and> evaluate rx score d metrics emb = Inr f)"
proof -
  from r obtain datasets where
    b: "fst (build_datasets mk qs gt (retrievers kbs) [] s) = Inr datasets" and
    e: "evaluate_loop rx score embs datasets kbs 0 [] = Inr dfs"
    unfolding run_Inr by blast
  from build_datasets_result [OF b ids] have good: "\<forall>d \<in> snd ` set datasets. built qs gt d"
    by simp
  from evaluate_loop_shape [OF e ids] obtain new where
    new: "dfs = [] @ new" "map fst new = map knowledgeBaseId kbs"
    "\<forall>f \<in> snd ` set new.
       \<exists>d emb. d \<in> snd ` set datasets \<and> evaluate rx score d metrics emb = Inr f"
    by auto
  have "\<forall>f \<in> snd ` set dfs. \<exists>d emb. built qs gt d \<and> evaluate rx score d metrics emb = Inr f"
  proof
    fix f assume "f \<in> snd ` set dfs"
    with new(1) have "f \<in> snd ` set new" by simp
    with new(3) obtain d emb where
      "d \<in> snd ` set datasets" "evaluate rx score d metrics emb = Inr f" by blast
    with good show "\<exists>d emb. built qs gt d \<and> evaluate rx score d metrics emb = Inr f" by blast
  qed
  with new show ?thesis by simp
qed

lemma run_cell_keys:
  assumes r: "fst (run rx mk score qs gt kbs embs s) = Inr dfs"
    and ids: "distinct (map knowledgeBaseId kbs)"
    and gt: "length gt = length qs"
  shows "cell_keys dfs = List.product (map knowledgeBaseId kbs) (List.product metrics qs)"
proof -
  from run_shape [OF r ids] have
    keys: "map fst dfs = map knowledgeBaseId kbs" and
    shape: "\<forall>f \<in> snd ` set dfs.
              \<exists>d emb. built qs gt d \<and> evaluate rx score d metrics emb = Inr f"
    by simp_all
  have "\<forall>f \<in> snd ` set dfs.
          map (\<lambda>(m, q, v). (m, q)) (df_cells f) = List.product metrics qs"
  proof
    fix f assume "f \<in> snd ` set dfs"
    with shape obtain d emb where
      "built qs gt d" "evaluate rx score d metrics emb = Inr f" by blast
    then show "map (\<lambda>(m, q, v). (m, q)) (df_cells f) = List.product metrics qs"
      using gt by (simp add: df_cells_evaluate rows_built)
  qed
  from cell_keys_product [OF this] keys show ?thesis by simp
qed

section \<open>The number of score cells\<close>

lemma distinct_metrics: "distinct metrics"
  by (simp add: metrics_def)

lemma rows_nonempty:
  "built qs gt d \<Longrightarrow> length gt = length qs \<Longrightarrow> qs \<noteq> [] \<Longrightarrow> rows d \<noteq> []"
  by (cases qs; cases gt; cases "answer d"; cases "contexts d") (auto simp: built_def rows_def)

text \<open>
  Every record is built, and yet the run holds no cell: the retrieval returns no
  context, the chain answers all the same, and the evaluation library turns down the
  dataset, whose contexts column has no string in it.
\<close>

theorem built_records_without_cells:
  "fst (build_datasets (from_chain_type llm_ok retrieve_nothing template_stuff)
          [''q1''] [''g1''] (retrievers [kb_A]) [] ())
     = Inr [(''KBA'', \<lparr>question = [''q1''], answer = [''answer''], contexts = [[]],
                        ground_truth = [''g1'']\<rparr>)] \<and>
   fst (run False (from_chain_type llm_ok retrieve_nothing template_stuff) score_const
          [''q1''] [''g1''] [kb_A] [0] ())
     = Inl ValueError"
  by (simp add: run_def retrievers_def execute_rag_def from_chain_type_def llm_ok_def
      retrieve_nothing_def from_dict_def kb_A_def evaluate_kb_def evaluate_def rows_def)

text \<open>
  C1, as amended. With distinct knowledge base ids, an embeddings entry for every
  knowledge base and as many ground truths as questions:
  \<^item> a run that returns holds exactly one score cell per (knowledge base, metric,
    question) triple, \<open>|B| * |Q| * |M|\<close> cells in all, whatever the scorers return;
  \<^item> the run returns when every record is built, there is a question, every dataset
    holds a retrieved context, and no scorer raises if the evaluation library is set to
    raise scorer exceptions;
  \<^item> when a record fails to build, the exception of the chain call that raised ends the
    run, so that no table and no cell exists, for that record or any other.
  A run in which every record is built can still end with an exception of the
  evaluation, and then holds no cell either.
\<close>

theorem run_cell_count:
  assumes "distinct (map knowledgeBaseId kbs)"
    and "length kbs \<le> length bedrock_embeddings"
    and "length gt = length qs"
  shows "(fst (run raise_exceptions mk_chain score qs gt kbs bedrock_embeddings s) = Inr dfs \<longrightarrow>
            cell_keys dfs = List.product (map knowledgeBaseId kbs) (List.product metrics qs) \<and>
            length (cells dfs) = length kbs * length qs * length metrics \<and>
            (distinct qs \<longrightarrow> distinct (cell_keys dfs))) \<and>
         (fst (build_datasets mk_chain qs gt (retrievers kbs) [] s) = Inr datasets \<and>
          qs \<noteq> [] \<and>
          (\<forall>d \<in> snd ` set datasets. concat (contexts d) \<noteq> []) \<and>
          (raise_exceptions \<longrightarrow> (\<forall>m emb r e. score m emb r \<noteq> Inl e)) \<longrightarrow>
            (\<exists>dfs. fst (run raise_exceptions mk_chain score qs gt kbs bedrock_embeddings s)
                      = Inr dfs)) \<and>
         (fst (build_datasets mk_chain qs gt (retrievers kbs) [] s) = Inl e \<longrightarrow>
            fst (run raise_exceptions mk_chain score qs gt kbs bedrock_embeddings s) = Inl e \<and>
            (\<exists>r \<in> set (retrievers kbs). \<exists>s1. \<exists>q \<in> set qs. fst (mk_chain r s1 q) = Inl e))"
proof (intro conjI impI)
  assume r: "fst (run raise_exceptions mk_chain score qs gt kbs bedrock_embeddings s) = Inr dfs"
  from run_cell_keys [OF r assms(1,3)] show
    k: "cell_keys dfs = List.product (map knowledgeBaseId kbs) (List.product metrics qs)" .
  have "length (cells dfs) = length (cell_keys dfs)" by (simp add: length_cell_keys)
  also have "\<dots> = length kbs * length qs * length metrics" by (simp add: k)
  finally show "length (cells dfs) = length kbs * length qs * length metrics" .
  assume "distinct qs"
  then show "distinct (cell_keys dfs)"
    using k assms(1) distinct_metrics by (simp add: distinct_product)
next
  assume a: "fst (build_datasets mk_chain qs gt (retrievers kbs) [] s) = Inr datasets \<and>
          qs \<noteq> [] \<and>
          (\<forall>d \<in> snd ` set datasets. concat (contexts d) \<noteq> []) \<and>
          (raise_exceptions \<longrightarrow> (\<forall>m emb r e. score m emb r \<noteq> Inl e))"
  then have b: "fst (build_datasets mk_chain qs gt (retrievers kbs) [] s) = Inr datasets"
    and q: "qs \<noteq> []"
    and c: "\<forall>d \<in> snd ` set datasets. concat (contexts d) \<noteq> []"
    and x: "raise_exceptions \<longrightarrow> (\<forall>m emb r e. score m emb r \<noteq> Inl e)"
    by simp_all
  from build_datasets_result [OF b assms(1)] have
    keys: "map fst datasets = map knowledgeBaseId kbs" and
    good: "\<forall>d \<in> snd ` set datasets. built qs gt d" by simp_all
  have "\<forall>j<length kbs. \<exists>d f. map_of datasets (knowledgeBaseId (kbs ! j)) = Some d \<and>
          evaluate raise_exceptions score d metrics (bedrock_embeddings ! j) = Inr f"
  proof (intro allI impI)
    fix j assume j: "j < length kbs"
    then have "knowledgeBaseId (kbs ! j) \<in> fst ` set datasets"
      using keys by (metis list.set_map nth_map nth_mem length_map)
    then obtain d where d: "map_of datasets (knowledgeBaseId (kbs ! j)) = Some d"
      by (metis domD dom_map_of_conv_image_fst)
    then have din: "d \<in> snd ` set datasets" by (metis image_eqI map_of_SomeD snd_conv)
    with good c have "built qs gt d" "concat (contexts d) \<noteq> []" by blast+
    with q assms(3) have "rows d \<noteq> []" by (simp add: rows_nonempty)
    with \<open>concat (contexts d) \<noteq> []\<close> x have
      "\<exists>f. evaluate raise_exceptions score d metrics (bedrock_embeddings ! j) = Inr f"
      unfolding evaluate_returns by blast
    with d show "\<exists>d f. map_of datasets (knowledgeBaseId (kbs ! j)) = Some d \<and>
          evaluate raise_exceptions score d metrics (bedrock_embeddings ! j) = Inr f" by blast
  qed
  with b assms(2) show
    "\<exists>dfs. fst (run raise_exceptions mk_chain score qs gt kbs bedrock_embeddings s) = Inr dfs"
    unfolding run_returns by blast
next
  assume b: "fst (build_datasets mk_chain qs gt (retrievers kbs) [] s) = Inl e"
  then show "fst (run raise_exceptions mk_chain score qs gt kbs bedrock_embeddings s) = Inl e"
    by (rule run_build_failure)
  from build_datasets_Inl [OF b] assms(3)
  show "\<exists>r \<in> set (retrievers kbs). \<exists>s1. \<exists>q \<in> set qs. fst (mk_chain r s1 q) = Inl e"
    by blast
qed

theorem run_cell_count_witness:
  "distinct (map knowledgeBaseId [kb_A, kb_B]) \<and>
   length [kb_A, kb_B] \<le> length [0::nat, 1] \<and>
   length [''g1'', ''g2'', ''g3''] = length [''q1'', ''q2'', ''q3''] \<and>
   (\<exists>dfs. fst (run True chain_ok score_const [''q1'', ''q2'', ''q3''] [''g1'', ''g2'', ''g3'']
               [kb_A, kb_B] [0, 1] ()) = Inr dfs \<and>
      length (cells dfs) = 36 \<and> distinct (cell_keys dfs)) \<and>
   fst (run True chain_fails score_const [''q1'', ''q2'', ''q3''] [''g1'', ''g2'', ''g3'']
          [kb_A, kb_B] [0, 1] ()) = Inl RetrievalError"
proof -
  let ?K = "[kb_A, kb_B]" and ?Q = "[''q1'', ''q2'', ''q3'']" and ?G = "[''g1'', ''g2'', ''g3'']"
  have h1: "distinct (map knowledgeBaseId ?K)" by (simp add: kb_A_def kb_B_def)
  have h2: "length ?K \<le> length [0::nat, 1]" by simp
  have h3: "length ?G = length ?Q" by simp
  have "\<exists>ds. fst (build_datasets chain_ok ?Q ?G (retrievers ?K) [] ()) = Inr ds \<and>
          (\<forall>d \<in> snd ` set ds. concat (contexts d) \<noteq> [])"
    by (simp add: retrievers_def execute_rag_def chain_ok_def from_dict_def)
  then obtain ds where b: "fst (build_datasets chain_ok ?Q ?G (retrievers ?K) [] ()) = Inr ds"
    and c: "\<forall>d \<in> snd ` set ds. concat (contexts d) \<noteq> []" by blast
  have q: "?Q \<noteq> []" by simp
  have x: "True \<longrightarrow> (\<forall>m emb r e. score_const m emb r \<noteq> Inl e)"
    by (simp add: score_const_def)
  have bf: "fst (build_datasets chain_fails ?Q ?G (retrievers ?K) [] ()) = Inl RetrievalError"
    by (simp add: retrievers_def execute_rag_def chain_fails_def)
  from run_cell_count [OF h1 h2 h3, where mk_chain = chain_ok and s = "()"
      and score = score_const and raise_exceptions = True and datasets = ds] b q c x
  obtain dfs where r: "fst (run True chain_ok score_const ?Q ?G ?K [0, 1] ()) = Inr dfs"
    by blast
  from run_cell_count [OF h1 h2 h3, where mk_chain = chain_ok and s = "()"
      and score = score_const and raise_exceptions = True and dfs = dfs] r
  have n: "length (cells dfs) = length ?K * length ?Q * length metrics"
    and d: "distinct ?Q \<longrightarrow> distinct (cell_keys dfs)" by blast+
  from n have n': "length (cells dfs) = 36" by (simp add: metrics_def)
  from d have d': "distinct (cell_keys dfs)" by simp
  from run_cell_count [OF h1 h2 h3, where mk_chain = chain_fails and s = "()"
      and score = score_const and raise_exceptions = True and e = RetrievalError] bf
  have f: "fst (run True chain_fails score_const ?Q ?G ?K [0, 1] ()) = Inl RetrievalError"
    by blast
  have "\<exists>dfs. fst (run True chain_ok score_const ?Q ?G ?K [0, 1] ()) = Inr dfs \<and>
      length (cells dfs) = 36 \<and> distinct (cell_keys dfs)"
    by (rule exI [of _ dfs]) (intro conjI r n' d')
  with h1 h2 h3 f show ?thesis by (intro conjI)
qed

section \<open>Failures of a run and the isolation of metrics\<close>









section \<open>Alignment of the parallel lists\<close>

lemma length_questions: "length questions = 3"
  by (simp add: questions_def raw_questions_def)

lemma length_ground_truth_list: "length ground_truth_list = 3"
  by (simp add: ground_truth_list_def)

lemma execute_rag_nth:
  assumes ex: "execute_rag mk qs gt r s = (Inr (k, d), s')" and i: "i < length qs"
  shows "\<exists>resp. fst (mk r (state_before (mk r) qs s i) (qs ! i)) = Inr resp \<and>
           answer d ! i = result resp \<and>
           contexts d ! i = map page_content (source_documents resp)"
proof -
  from ex obtain a c where
    loop: "invoke_loop (mk r) qs [] [] s = (Inr (a, c), s')" and
    d: "d = \<lparr>question = qs, answer = a, contexts = c, ground_truth = gt\<rparr>"
    by (auto simp: execute_rag_def Let_def split: prod.splits sum.splits)
  from invoke_loop_nth [OF loop i] d show ?thesis by simp
qed

text \<open>
  C9. The dict that \<^verbatim>\<open>execute_rag\<close> returns for a retriever, with the notebook's questions
  and ground truths, has four lists of the same length, three; and at every index the
  answer and the contexts are those of the response that the chain gave when it was
  invoked, as the call of that index, on the question at that index.
\<close>

theorem execute_rag_aligned:
  assumes "execute_rag mk_chain questions ground_truth_list retriever s = (Inr (kb_id, d), s')"
  shows "length (question d) = 3 \<and>
         length (answer d) = length (question d) \<and>
         length (contexts d) = length (question d) \<and>
         length (ground_truth d) = length (question d) \<and>
         (\<forall>i<length (question d).
            \<exists>resp. fst (mk_chain retriever
                          (state_before (mk_chain retriever) questions s i) (question d ! i))
                     = Inr resp \<and>
                   answer d ! i = result resp \<and>
                   contexts d ! i = map page_content (source_documents resp))"
proof -
  from execute_rag_Inr [OF assms] have
    q: "question d = questions" and g: "ground_truth d = ground_truth_list" and
    a: "length (answer d) = length questions" and c: "length (contexts d) = length questions"
    by simp_all
  have "\<forall>i<length questions.
          \<exists>resp. fst (mk_chain retriever
                        (state_before (mk_chain retriever) questions s i) (questions ! i))
                   = Inr resp \<and>
                 answer d ! i = result resp \<and>
                 contexts d ! i = map page_content (source_documents resp)"
    using execute_rag_nth [OF assms] by blast
  with q g a c show ?thesis
    by (simp add: length_questions length_ground_truth_list)
qed

theorem execute_rag_aligned_witness:
  "\<exists>d. execute_rag chain_numbered questions ground_truth_list retriever_A 0
          = (Inr (''KBA'', d), 3) \<and>
       length (question d) = 3 \<and> length (answer d) = 3 \<and>
       length (contexts d) = 3 \<and> length (ground_truth d) = 3 \<and>
       state_before (chain_numbered retriever_A) questions 0 2 = 2 \<and>
       answer d ! 2 = ''xx'' \<and> contexts d ! 2 = [questions ! 2]"
proof -
  have "\<exists>d. execute_rag chain_numbered questions ground_truth_list retriever_A 0
          = (Inr (''KBA'', d), 3)"
    by (simp add: execute_rag_def questions_def raw_questions_def chain_numbered_def
        retriever_A_def)
  then obtain d where
    ex: "execute_rag chain_numbered questions ground_truth_list retriever_A 0
           = (Inr (''KBA'', d), 3)" ..
  note t = execute_rag_aligned [OF ex]
  from t have l: "length (question d) = 3" "length (answer d) = 3"
    "length (contexts d) = 3" "length (ground_truth d) = 3" by simp_all
  from execute_rag_Inr [OF ex] have q: "question d = questions" by simp
  have st: "state_before (chain_numbered retriever_A) questions 0 2 = 2"
    by (simp add: questions_def raw_questions_def chain_numbered_def numeral_2_eq_2)
  from t l have
    "\<exists>resp. fst (chain_numbered retriever_A
                   (state_before (chain_numbered retriever_A) questions 0 2) (question d ! 2))
               = Inr resp \<and>
            answer d ! 2 = result resp \<and>
            contexts d ! 2 = map page_content (source_documents resp)"
    by simp
  then have "answer d ! 2 = replicate 2 (CHR ''x'') \<and> contexts d ! 2 = [questions ! 2]"
    unfolding st q by (auto simp: chain_numbered_def)
  then have a: "answer d ! 2 = ''xx''" and c: "contexts d ! 2 = [questions ! 2]"
    by (simp_all add: numeral_2_eq_2)
  show ?thesis
    by (intro exI [of _ d] conjI ex l st a c)
qed

section \<open>The prefixed questions\<close>

lemma evaluate_loop_members:
  "evaluate_loop rx score embs datasets kbs i acc = Inr dfs \<Longrightarrow> (k, f) \<in> set dfs \<Longrightarrow>
   (k, f) \<in> set acc \<or>
   (\<exists>d emb. (k, d) \<in> set datasets \<and> evaluate rx score d metrics emb = Inr f)"
proof (induction kbs arbitrary: i acc)
  case Nil
  then show ?case by simp
next
  case (Cons kb kbs)
  let ?k = "knowledgeBaseId kb"
  from Cons.prems(1) obtain d g where
    d: "map_of datasets ?k = Some d" and
    g: "evaluate rx score d metrics (embs ! i) = Inr g" and
    rest: "evaluate_loop rx score embs datasets kbs (Suc i) (dict_set acc ?k g) = Inr dfs"
    unfolding evaluate_loop_step by blast
  from Cons.IH [OF rest Cons.prems(2)] consider
    "(k, f) \<in> set (dict_set acc ?k g)"
    | "\<exists>d emb. (k, d) \<in> set datasets \<and> evaluate rx score d metrics emb = Inr f"
    by blast
  then show ?case
  proof cases
    case 1
    with set_dict_set [of acc ?k g]
    have "(k, f) = (?k, g) \<or> (k, f) \<in> set acc" by blast
    with map_of_SomeD [OF d] g show ?thesis by auto
  next
    case 2
    then show ?thesis by simp
  qed
qed

lemma rows_columns:
  assumes "built qs gt d" and "length gt = length qs"
  shows "map fst (rows d) = qs \<and> map (\<lambda>r. snd (snd (snd r))) (rows d) = gt"
proof -
  from assms have l: "length (question d) = length qs" "length (answer d) = length qs"
    "length (contexts d) = length qs" "length (ground_truth d) = length qs"
    and q: "question d = qs" and g: "ground_truth d = gt"
    by (simp_all add: built_def)
  have "map (\<lambda>r. snd (snd (snd r))) (rows d) = map snd (map snd (map snd (rows d)))"
    by (simp add: comp_def)
  also have "\<dots> = ground_truth d"
    using l by (simp add: rows_def map_snd_zip)
  finally have "map (\<lambda>r. snd (snd (snd r))) (rows d) = gt" using g by simp
  moreover have "map fst (rows d) = qs" using l q by (simp add: rows_def)
  ultimately show ?thesis by simp
qed

lemma prefix_start: "take 50 prefix = ''Keep your answers under 2000 characters in length.''"
  by (simp add: prefix_def)

lemma prefixed_not_raw: "\<forall>q \<in> set raw_questions. prefix @ q \<notin> set raw_questions"
  by (simp add: raw_questions_def prefix_def)

text \<open>
  C10. Every dataset stored in \<^verbatim>\<open>datasets\<close>, for whichever knowledge base, has as its
  question column the notebook's questions, each the instruction prefix followed by the
  original question, and as its ground-truth column the notebook's ground truths; so do
  the rows of every table the run returns. The prefix begins with the instruction
  quoted, and no prefixed question is one of the original questions.
\<close>

theorem datasets_prefixed_questions:
  "(fst (build_datasets mk_chain questions ground_truth_list (retrievers kbs) [] s) = Inr datasets \<and>
    (kb_id, d) \<in> set datasets \<longrightarrow>
      question d = map (\<lambda>question. prefix @ question) raw_questions \<and>
      ground_truth d = ground_truth_list) \<and>
   (fst (run raise_exceptions mk_chain score questions ground_truth_list kbs bedrock_embeddings s) = Inr dfs \<and>
    (kb_id, f) \<in> set dfs \<longrightarrow>
      map fst (df_rows f) = map (\<lambda>question. prefix @ question) raw_questions \<and>
      map (\<lambda>r. snd (snd (snd r))) (df_rows f) = ground_truth_list) \<and>
   take 50 prefix = ''Keep your answers under 2000 characters in length.'' \<and>
   (\<forall>q \<in> set raw_questions. prefix @ q \<notin> set raw_questions)"
proof (intro conjI impI)
  assume a: "fst (build_datasets mk_chain questions ground_truth_list (retrievers kbs) [] s)
               = Inr datasets \<and> (kb_id, d) \<in> set datasets"
  then obtain s' where
    b: "build_datasets mk_chain questions ground_truth_list (retrievers kbs) [] s = (Inr datasets, s')"
    by (cases "build_datasets mk_chain questions ground_truth_list (retrievers kbs) [] s") auto
  from build_datasets_members [OF b] a have "built questions ground_truth_list d" by auto
  then show "question d = map (\<lambda>question. prefix @ question) raw_questions"
    and "ground_truth d = ground_truth_list"
    by (simp_all add: built_def questions_def)
next
  assume a: "fst (run raise_exceptions mk_chain score questions ground_truth_list kbs bedrock_embeddings s) = Inr dfs \<and>
             (kb_id, f) \<in> set dfs"
  then obtain datasets s' where
    b: "build_datasets mk_chain questions ground_truth_list (retrievers kbs) [] s = (Inr datasets, s')"
    and e: "evaluate_loop raise_exceptions score bedrock_embeddings datasets kbs 0 [] = Inr dfs"
    by (auto simp: run_def split: prod.splits sum.splits)
  from evaluate_loop_members [OF e, of kb_id f] a obtain d emb where
    d: "(kb_id, d) \<in> set datasets" and
    f: "evaluate raise_exceptions score d metrics emb = Inr f" by auto
  from evaluate_Inr [OF f] have fr: "df_rows f = rows d" by simp
  from build_datasets_members [OF b d] have bd: "built questions ground_truth_list d" by auto
  have "length ground_truth_list = length questions"
    by (simp add: length_questions length_ground_truth_list)
  from rows_columns [OF bd this] fr
  show "map fst (df_rows f) = map (\<lambda>question. prefix @ question) raw_questions"
    and "map (\<lambda>r. snd (snd (snd r))) (df_rows f) = ground_truth_list"
    by (simp_all add: questions_def)
next
  show "take 50 prefix = ''Keep your answers under 2000 characters in length.''"
    by (rule prefix_start)
next
  show "\<forall>q \<in> set raw_questions. prefix @ q \<notin> set raw_questions"
    by (rule prefixed_not_raw)
qed

theorem datasets_prefixed_questions_witness:
  "\<exists>d f. fst (build_datasets chain_ok questions ground_truth_list (retrievers [kb_A, kb_B]) [] ())
            = Inr [(''KBA'', d), (''KBB'', d)] \<and>
         question d = map (\<lambda>question. prefix @ question) raw_questions \<and>
         ground_truth d = ground_truth_list \<and>
         fst (run False chain_ok score_const questions ground_truth_list [kb_A, kb_B] [0, 1] ())
            = Inr [(''KBA'', f), (''KBB'', f)] \<and>
         map fst (df_rows f) = map (\<lambda>question. prefix @ question) raw_questions \<and>
         map (\<lambda>r. snd (snd (snd r))) (df_rows f) = ground_truth_list \<and>
         prefix @ raw_questions ! 0 \<notin> set raw_questions"
proof -
  let ?K = "[kb_A, kb_B]"
  have "\<exists>d. fst (build_datasets chain_ok questions ground_truth_list (retrievers ?K) [] ())
            = Inr [(''KBA'', d), (''KBB'', d)]"
    by (simp add: retrievers_def execute_rag_def chain_ok_def from_dict_def kb_A_def kb_B_def
        questions_def raw_questions_def ground_truth_list_def)
  then obtain d where b: "fst (build_datasets chain_ok questions ground_truth_list (retrievers ?K) [] ())
            = Inr [(''KBA'', d), (''KBB'', d)]" ..
  have "\<exists>f. fst (run False chain_ok score_const questions ground_truth_list ?K [0, 1] ())
            = Inr [(''KBA'', f), (''KBB'', f)]"
    by (simp add: run_def retrievers_def execute_rag_def chain_ok_def from_dict_def kb_A_def
        kb_B_def questions_def raw_questions_def ground_truth_list_def evaluate_kb_def
        evaluate_def score_const_def rows_def)
  then obtain f where r: "fst (run False chain_ok score_const questions ground_truth_list ?K [0, 1] ())
            = Inr [(''KBA'', f), (''KBB'', f)]" ..
  note t = datasets_prefixed_questions [where mk_chain = chain_ok and kbs = ?K and s = "()"
      and datasets = "[(''KBA'', d), (''KBB'', d)]" and kb_id = "''KBA''" and d = d
      and score = score_const and raise_exceptions = False and bedrock_embeddings = "[0, 1]"
      and dfs = "[(''KBA'', f), (''KBB'', f)]" and f = f]
  from t b have 1: "question d = map (\<lambda>question. prefix @ question) raw_questions \<and>
      ground_truth d = ground_truth_list" by simp
  from t r have 2: "map fst (df_rows f) = map (\<lambda>question. prefix @ question) raw_questions \<and>
      map (\<lambda>r. snd (snd (snd r))) (df_rows f) = ground_truth_list" by simp
  from t have "\<forall>q \<in> set raw_questions. prefix @ q \<notin> set raw_questions" by blast
  moreover have "raw_questions ! 0 \<in> set raw_questions" by (simp add: raw_questions_def)
  ultimately have 3: "prefix @ raw_questions ! 0 \<notin> set raw_questions" by blast
  from b r 1 2 3 show ?thesis by blast
qed

section \<open>The means of the scores\<close>

lemma mean_values_Inr:
  "mean_values ar d cs = Inr mv \<Longrightarrow>
   map fst mv = cs \<and>
   (\<forall>c \<in> set cs. \<exists>col. map_of (df_scores d) c = Some col \<and> map_of mv c = Some (mean ar col))"
proof (induction cs arbitrary: mv)
  case Nil
  then show ?case by simp
next
  case (Cons c cs)
  from Cons.prems obtain col ms where
    col: "map_of (df_scores d) c = Some col" and
    ms: "mean_values ar d cs = Inr ms" and
    mv: "mv = (c, mean ar col) # ms"
    by (auto split: option.splits sum.splits)
  from Cons.IH [OF ms] have
    IH: "map fst ms = cs"
      "\<forall>c \<in> set cs. \<exists>col. map_of (df_scores d) c = Some col \<and> map_of ms c = Some (mean ar col)"
    by simp_all
  show ?case using col mv IH by auto
qed

lemma means_loop_Inr:
  "means_loop ar kbs dfs ms0 ns0 = Inr (ms, ns) \<Longrightarrow>
   \<exists>new. ms = ms0 @ new \<and> length new = length dfs \<and>
         (\<forall>i<length dfs. mean_values ar (snd (dfs ! i)) numeric_cols = Inr (new ! i)) \<and>
         ns = ns0 @ map (\<lambda>p. kb_name_of kbs (fst p)) dfs"
proof (induction dfs arbitrary: ms0 ns0)
  case Nil
  then show ?case by simp
next
  case (Cons p dfs)
  obtain key d where p: "p = (key, d)" by (cases p)
  from Cons.prems p obtain mv where
    mv: "mean_values ar d numeric_cols = Inr mv" and
    rest: "means_loop ar kbs dfs (ms0 @ [mv]) (ns0 @ [kb_name_of kbs key]) = Inr (ms, ns)"
    by (auto split: sum.splits)
  from Cons.IH [OF rest] obtain new where
    new: "ms = (ms0 @ [mv]) @ new" "length new = length dfs"
      "\<forall>i<length dfs. mean_values ar (snd (dfs ! i)) numeric_cols = Inr (new ! i)"
      "ns = (ns0 @ [kb_name_of kbs key]) @ map (\<lambda>p. kb_name_of kbs (fst p)) dfs"
    by blast
  let ?new = "mv # new"
  have "\<forall>i<length (p # dfs). mean_values ar (snd ((p # dfs) ! i)) numeric_cols = Inr (?new ! i)"
  proof (intro allI impI)
    fix i assume "i < length (p # dfs)"
    then show "mean_values ar (snd ((p # dfs) ! i)) numeric_cols = Inr (?new ! i)"
      using new(3) mv p by (cases i) simp_all
  qed
  moreover have "ms = ms0 @ ?new" "length ?new = length (p # dfs)"
    "ns = ns0 @ map (\<lambda>p. kb_name_of kbs (fst p)) (p # dfs)"
    using new p by simp_all
  ultimately show ?case by blast
qed

lemma summarize_Inr:
  assumes "summarize ar g = Inr g'"
  shows "\<exists>new. length new = length (g_dfs g) \<and>
           (\<forall>i<length (g_dfs g). mean_values ar (snd (g_dfs g ! i)) numeric_cols = Inr (new ! i)) \<and>
           g' = g\<lparr>g_means := new,
                  g_kb_names := map (\<lambda>p. kb_name_of (g_kbs g) (fst p)) (g_dfs g),
                  g_means_df :=
                    zip (map (\<lambda>p. map_of display_names (kb_name_of (g_kbs g) (fst p))) (g_dfs g))
                      new\<rparr>"
proof -
  from assms obtain ms ns where
    loop: "means_loop ar (g_kbs g) (g_dfs g) [] [] = Inr (ms, ns)" and
    g': "g' = g\<lparr>g_means := ms, g_kb_names := ns,
                 g_means_df := zip (map (map_of display_names) ns) ms\<rparr>"
    by (auto simp: summarize_def split: sum.splits)
  from means_loop_Inr [OF loop] g' show ?thesis by (auto simp: comp_def)
qed

lemma summarize_row:
  assumes "summarize ar g = Inr g'" and "i < length (g_dfs g)"
  shows "length (g_means_df g') = length (g_dfs g) \<and>
         fst (g_means_df g' ! i) = map_of display_names (kb_name_of (g_kbs g) (fst (g_dfs g ! i))) \<and>
         mean_values ar (snd (g_dfs g ! i)) numeric_cols = Inr (snd (g_means_df g' ! i))"
proof -
  from summarize_Inr [OF assms(1)] obtain new where
    "length new = length (g_dfs g)"
    "\<forall>i<length (g_dfs g). mean_values ar (snd (g_dfs g ! i)) numeric_cols = Inr (new ! i)"
    "g_means_df g' =
       zip (map (\<lambda>p. map_of display_names (kb_name_of (g_kbs g) (fst p))) (g_dfs g)) new"
    by auto
  with assms(2) show ?thesis by simp
qed

lemma summarize_cell:
  assumes "summarize ar g = Inr g'" and "i < length (g_dfs g)" and "m \<in> set numeric_cols"
    and "map_of (df_scores (snd (g_dfs g ! i))) m = Some col"
  shows "map_of (snd (g_means_df g' ! i)) m = Some (mean ar col)"
proof -
  from summarize_row [OF assms(1,2)] have
    "mean_values ar (snd (g_dfs g ! i)) numeric_cols = Inr (snd (g_means_df g' ! i))" by simp
  from mean_values_Inr [OF this] assms(3,4) show ?thesis by auto
qed

lemma successes_filter: "map Some (successes col) = filter (\<lambda>c. c \<noteq> None) col"
  by (induction col rule: successes.induct) simp_all

lemma successes_empty: "successes col = [] \<longleftrightarrow> (\<forall>c \<in> set col. c = None)"
  by (induction col rule: successes.induct) simp_all

text \<open>
  C3. When no cell of a metric's column holds a value for a knowledge base, the entry
  of \<^verbatim>\<open>means_df\<close> for that knowledge base and metric is NaN, the marker pandas uses for
  missing data, and not the number 0.
\<close>

theorem no_data_marker:
  assumes "summarize ar g = Inr g'"
    and "i < length (g_dfs g)"
    and "m \<in> set numeric_cols"
    and "map_of (df_scores (snd (g_dfs g ! i))) m = Some col"
    and "\<forall>c \<in> set col. c = None"
  shows "map_of (snd (g_means_df g' ! i)) m = Some None \<and>
         map_of (snd (g_means_df g' ! i)) m \<noteq> Some (Some (fzero ar))"
proof -
  from assms(5) have "mean ar col = None" by (simp add: mean_def successes_empty)
  with summarize_cell [OF assms(1-4)] show ?thesis by simp
qed

theorem no_data_marker_witness:
  "\<exists>g'. summarize exact (globals_of [(''KBA'', df_of [None, None, None])]) = Inr g' \<and>
        0 < length (g_dfs (globals_of [(''KBA'', df_of [None, None, None])])) \<and>
        context_recall \<in> set numeric_cols \<and>
        map_of (df_scores (df_of [None, None, None])) context_recall = Some [None, None, None] \<and>
        map_of (snd (g_means_df g' ! 0)) context_recall = Some None \<and>
        map_of (snd (g_means_df g' ! 0)) context_recall \<noteq> Some (Some 0)"
proof -
  let ?g = "globals_of [(''KBA'', df_of [None, None, None])]"
  have "\<exists>g'. summarize exact ?g = Inr g'"
    by (simp add: summarize_def globals_of_def df_of_def metrics_def numeric_cols_def)
  then obtain g' where s: "summarize exact ?g = Inr g'" ..
  have i: "0 < length (g_dfs ?g)" by (simp add: globals_of_def)
  have m: "context_recall \<in> set numeric_cols" by (simp add: numeric_cols_def)
  have c: "map_of (df_scores (snd (g_dfs ?g ! 0))) context_recall = Some [None, None, None]"
    by (simp add: globals_of_def df_of_def metrics_def)
  then have c': "map_of (df_scores (df_of [None, None, None])) context_recall
      = Some [None, None, None]" by (simp add: globals_of_def)
  have n: "\<forall>c \<in> set [None, None, None :: real option]. c = None" by simp
  from no_data_marker [OF s i m c n] have
    r: "map_of (snd (g_means_df g' ! 0)) context_recall = Some None"
      "map_of (snd (g_means_df g' ! 0)) context_recall \<noteq> Some (Some 0)"
    by (simp_all add: exact_def)
  show ?thesis by (rule exI [of _ g']) (intro conjI s i m c' r)
qed

section \<open>What the summary records\<close>

lemma df_of_column:
  "map_of (df_scores (df_of col)) answer_relevancy = Some col"
  by (simp add: df_of_def metrics_def)

lemma sum_list_filled_exact: "sum_list (filled exact col) = sum_list (successes col)"
  by (induction col rule: successes.induct) (simp_all add: filled_def exact_def)

text \<open>In exact arithmetic the mean of a column is the arithmetic mean of its values.\<close>

lemma mean_exact:
  "mean exact col =
     (if successes col = [] then None
      else Some (sum_list (successes col) / real (length (successes col))))"
proof -
  have "fsum exact (filled exact col) = sum_list (successes col)"
    using sum_list_filled_exact [of col] by (simp add: exact_def)
  then show ?thesis by (simp add: mean_def) (simp add: exact_def)
qed

text \<open>
  The count of error cells is not recorded: two tables with the same values but
  different numbers of NaN cells have the same \<^verbatim>\<open>means_df\<close>.
\<close>

theorem error_count_not_recorded:
  "map_sum id g_means_df
     (summarize exact (globals_of [(''KBA'', df_of [Some (1 / 2), None, None])]))
     = Inr [(Some ''Amazon Titan Embedding'', const_row (1 / 2))] \<and>
   map_sum id g_means_df
     (summarize exact (globals_of [(''KBA'', df_of [Some (1 / 2), Some (1 / 2), None])]))
     = Inr [(Some ''Amazon Titan Embedding'', const_row (1 / 2))] \<and>
   error_cells (df_of [Some (1 / 2), None, None]) answer_relevancy = 2 \<and>
   error_cells (df_of [Some (1 / 2), Some (1 / 2), None]) answer_relevancy = 1"
  by (simp add: summarize_def globals_of_def df_of_def metrics_def numeric_cols_def mean_def
      filled_def exact_def kb_A_def kb_B_def display_names_def error_cells_def const_row_def)

text \<open>
  C4, as amended. For a knowledge base and a metric whose column holds at least one
  value, the entry of \<^verbatim>\<open>means_df\<close> is the mean that pandas computes: the sum, in the
  arithmetic of the floats, of the column with 0.0 in the place of every NaN cell,
  divided by the number of cells that hold a value. The NaN cells are not counted, and
  they enter the sum as zeros only. In exact arithmetic this is the arithmetic mean of
  the values of the column; in float64 it is that mean as rounded by the sum and the
  division. The row of \<^verbatim>\<open>means_df\<close> holds one such mean per metric of \<^verbatim>\<open>numeric_cols\<close> and
  nothing else.
\<close>

theorem mean_over_successes:
  assumes "summarize ar g = Inr g'"
    and "i < length (g_dfs g)"
    and "m \<in> set numeric_cols"
    and "map_of (df_scores (snd (g_dfs g ! i))) m = Some col"
    and "\<exists>v. Some v \<in> set col"
  shows "map_of (snd (g_means_df g' ! i)) m
           = Some (Some (fdiv ar (fsum ar (filled ar col)) (length (successes col)))) \<and>
         map Some (successes col) = filter (\<lambda>c. c \<noteq> None) col \<and>
         length (filled ar col) = length col \<and>
         (\<forall>j<length col.
            filled ar col ! j = (case col ! j of None \<Rightarrow> fzero ar | Some v \<Rightarrow> v)) \<and>
         map fst (snd (g_means_df g' ! i)) = numeric_cols \<and>
         mean exact rcol =
           (if successes rcol = [] then None
            else Some (sum_list (successes rcol) / real (length (successes rcol))))"
proof -
  from assms(5) have "successes col \<noteq> []" by (auto simp: successes_empty)
  then have "mean ar col = Some (fdiv ar (fsum ar (filled ar col)) (length (successes col)))"
    by (simp add: mean_def)
  with summarize_cell [OF assms(1-4)] have 1:
    "map_of (snd (g_means_df g' ! i)) m
       = Some (Some (fdiv ar (fsum ar (filled ar col)) (length (successes col))))" by simp
  have 2: "map Some (successes col) = filter (\<lambda>c. c \<noteq> None) col" by (rule successes_filter)
  have 3: "length (filled ar col) = length col" by (simp add: filled_def)
  have 4: "\<forall>j<length col.
      filled ar col ! j = (case col ! j of None \<Rightarrow> fzero ar | Some v \<Rightarrow> v)"
    by (simp add: filled_def)
  from summarize_row [OF assms(1,2)] have
    "mean_values ar (snd (g_dfs g ! i)) numeric_cols = Inr (snd (g_means_df g' ! i))" by simp
  from mean_values_Inr [OF this] have 5: "map fst (snd (g_means_df g' ! i)) = numeric_cols"
    by simp
  show ?thesis by (intro conjI 1 2 3 4 5 mean_exact)
qed

theorem mean_over_successes_witness:
  "\<exists>g'. summarize exact (globals_of [(''KBA'', df_of [Some (1 / 4), None, Some (3 / 4)])])
          = Inr g' \<and>
        0 < length (g_dfs (globals_of [(''KBA'', df_of [Some (1 / 4), None, Some (3 / 4)])])) \<and>
        answer_relevancy \<in> set numeric_cols \<and>
        map_of (df_scores (df_of [Some (1 / 4), None, Some (3 / 4)])) answer_relevancy
          = Some [Some (1 / 4), None, Some (3 / 4)] \<and>
        Some (1 / 4) \<in> set [Some (1 / 4), None, Some (3 / 4 :: real)] \<and>
        filled exact [Some (1 / 4), None, Some (3 / 4)] = [1 / 4, 0, 3 / 4] \<and>
        successes [Some (1 / 4), None, Some (3 / 4 :: real)] = [1 / 4, 3 / 4] \<and>
        map_of (snd (g_means_df g' ! 0)) answer_relevancy = Some (Some (1 / 2))"
proof -
  let ?col = "[Some (1 / 4), None, Some (3 / 4 :: real)]"
  let ?g = "globals_of [(''KBA'', df_of ?col)]"
  have "\<exists>g'. summarize exact ?g = Inr g'"
    by (simp add: summarize_def globals_of_def df_of_def metrics_def numeric_cols_def)
  then obtain g' where s: "summarize exact ?g = Inr g'" ..
  have i: "0 < length (g_dfs ?g)" by (simp add: globals_of_def)
  have m: "answer_relevancy \<in> set numeric_cols" by (simp add: numeric_cols_def)
  have c': "map_of (df_scores (df_of ?col)) answer_relevancy = Some ?col"
    by (rule df_of_column)
  then have c: "map_of (df_scores (snd (g_dfs ?g ! 0))) answer_relevancy = Some ?col"
    by (simp add: globals_of_def)
  have v1: "Some (1 / 4) \<in> set ?col" by simp
  then have v: "\<exists>v. Some v \<in> set ?col" by blast
  have f: "filled exact ?col = [1 / 4, 0, 3 / 4]" by (simp add: filled_def exact_def)
  have su: "successes ?col = [1 / 4, 3 / 4]" by simp
  from mean_over_successes [OF s i m c v] have
    "map_of (snd (g_means_df g' ! 0)) answer_relevancy
       = Some (Some (fdiv exact (fsum exact (filled exact ?col)) (length (successes ?col))))"
    by simp
  then have r: "map_of (snd (g_means_df g' ! 0)) answer_relevancy = Some (Some (1 / 2))"
    unfolding f su by (simp add: exact_def)
  show ?thesis by (rule exI [of _ g']) (intro conjI s i m c' v1 f su r)
qed

section \<open>The comparison view and its recomputation\<close>

lemma run_keys:
  assumes "fst (run rx mk score qs gt kbs embs s) = Inr dfs"
    and "distinct (map knowledgeBaseId kbs)"
  shows "map fst dfs = map knowledgeBaseId kbs"
  using run_shape [OF assms] by simp

lemma kb_name_of_member:
  "distinct (map knowledgeBaseId kbs) \<Longrightarrow> kb \<in> set kbs \<Longrightarrow>
   kb_name_of kbs (knowledgeBaseId kb) = name kb"
  by (induction kbs) auto

lemma summarize_index:
  assumes "summarize ar g = Inr g'"
  shows "map fst (g_means_df g') =
         map (\<lambda>p. map_of display_names (kb_name_of (g_kbs g) (fst p))) (g_dfs g)"
proof -
  from summarize_Inr [OF assms] obtain new where
    "length new = length (g_dfs g)"
    "g_means_df g' =
       zip (map (\<lambda>p. map_of display_names (kb_name_of (g_kbs g) (fst p))) (g_dfs g)) new"
    by auto
  then show ?thesis by simp
qed

lemma summarize_columns:
  assumes "summarize ar g = Inr g'" and "row \<in> set (g_means_df g')"
  shows "map fst (snd row) = numeric_cols"
proof -
  from assms(2) obtain i where i: "i < length (g_means_df g')" "g_means_df g' ! i = row"
    by (auto simp: in_set_conv_nth)
  from summarize_Inr [OF assms(1)] have "length (g_means_df g') = length (g_dfs g)" by auto
  with i have "i < length (g_dfs g)" by simp
  from summarize_row [OF assms(1) this] i have
    "mean_values ar (snd (g_dfs g ! i)) numeric_cols = Inr (snd row)" by simp
  from mean_values_Inr [OF this] show ?thesis by simp
qed

text \<open>
  The rows of \<^verbatim>\<open>means_df\<close> are not ranked by mean: the knowledge base registered first
  comes first although its means are the lower ones.
\<close>

theorem means_df_not_ranked:
  "map_sum id g_means_df
     (summarize exact
        (globals_of [(''KBA'', df_of [Some (1 / 4), Some (1 / 4), Some (1 / 4)]),
                     (''KBB'', df_of [Some (3 / 4), Some (3 / 4), Some (3 / 4)])]))
     = Inr [(Some ''Amazon Titan Embedding'', const_row (1 / 4)),
            (Some ''Cohere English Embedding'', const_row (3 / 4))] \<and>
   (1 / 4 :: real) < 3 / 4"
  by (simp add: summarize_def globals_of_def df_of_def metrics_def numeric_cols_def mean_def
      filled_def exact_def kb_A_def kb_B_def display_names_def const_row_def)

text \<open>
  C7, as amended. The comparison view \<^verbatim>\<open>means_df\<close> has one row per knowledge base, in the
  order in which the knowledge bases are registered in \<^verbatim>\<open>kbs\<close>, whatever their means,
  tied or not; each row holds the means of the metrics in the order of \<^verbatim>\<open>numeric_cols\<close>.
  Nothing ranks the knowledge bases by mean.
\<close>

theorem means_df_registration_order:
  assumes "fst (run raise_exceptions mk_chain score qs gt kbs bedrock_embeddings s) = Inr dfs"
    and "distinct (map knowledgeBaseId kbs)"
    and "summarize ar (g\<lparr>g_dfs := dfs, g_kbs := kbs\<rparr>) = Inr g'"
  shows "map fst (g_means_df g') = map (\<lambda>kb. map_of display_names (name kb)) kbs \<and>
         (\<forall>row \<in> set (g_means_df g'). map fst (snd row) = numeric_cols)"
proof -
  from run_keys [OF assms(1,2)] have keys: "map fst dfs = map knowledgeBaseId kbs" .
  have "map fst (g_means_df g') =
        map (\<lambda>p. map_of display_names (kb_name_of kbs (fst p))) dfs"
    using summarize_index [OF assms(3)] by simp
  also have "\<dots> = map (\<lambda>k. map_of display_names (kb_name_of kbs k)) (map fst dfs)"
    by (simp add: comp_def)
  also have "\<dots> = map (\<lambda>kb. map_of display_names (kb_name_of kbs (knowledgeBaseId kb))) kbs"
    by (simp add: keys comp_def)
  also have "\<dots> = map (\<lambda>kb. map_of display_names (name kb)) kbs"
    using kb_name_of_member [OF assms(2)] by simp
  finally have "map fst (g_means_df g') = map (\<lambda>kb. map_of display_names (name kb)) kbs" .
  moreover have "\<forall>row \<in> set (g_means_df g'). map fst (snd row) = numeric_cols"
    using summarize_columns [OF assms(3)] by blast
  ultimately show ?thesis by simp
qed

theorem means_df_registration_order_witness:
  "\<exists>dfs g'.
     fst (run False chain_ok score_const [''q1''] [''g1''] [kb_A, kb_B] [0, 1] ()) = Inr dfs \<and>
     distinct (map knowledgeBaseId [kb_A, kb_B]) \<and>
     summarize exact ((globals_of [])\<lparr>g_dfs := dfs, g_kbs := [kb_A, kb_B]\<rparr>) = Inr g' \<and>
     map fst (g_means_df g') = [Some ''Amazon Titan Embedding'', Some ''Cohere English Embedding'']"
proof -
  let ?K = "[kb_A, kb_B]"
  have "\<exists>dfs. fst (run False chain_ok score_const [''q1''] [''g1''] ?K [0, 1] ()) = Inr dfs \<and>
          (\<exists>g'. summarize exact ((globals_of [])\<lparr>g_dfs := dfs, g_kbs := ?K\<rparr>) = Inr g')"
    by (simp add: run_def retrievers_def execute_rag_def chain_ok_def from_dict_def kb_A_def
        kb_B_def evaluate_kb_def evaluate_def score_const_def summarize_def globals_of_def
        metrics_def numeric_cols_def rows_def)
  then obtain dfs g' where
    r: "fst (run False chain_ok score_const [''q1''] [''g1''] ?K [0, 1] ()) = Inr dfs" and
    s: "summarize exact ((globals_of [])\<lparr>g_dfs := dfs, g_kbs := ?K\<rparr>) = Inr g'" by blast
  have d: "distinct (map knowledgeBaseId ?K)" by (simp add: kb_A_def kb_B_def)
  from means_df_registration_order [OF r d s] have
    "map fst (g_means_df g') = map (\<lambda>kb. map_of display_names (name kb)) ?K" by simp
  then have l: "map fst (g_means_df g')
      = [Some ''Amazon Titan Embedding'', Some ''Cohere English Embedding'']"
    by (simp add: kb_A_def kb_B_def display_names_def)
  show ?thesis
    by (rule exI [of _ dfs], rule exI [of _ g']) (intro conjI r d s l)
qed

text \<open>
  C8. Running the averaging cell again on the globals it left behind gives the same
  globals, \<^verbatim>\<open>means_df\<close> included; and what it computes does not depend on the values that
  \<^verbatim>\<open>means\<close>, \<^verbatim>\<open>kb_names\<close> and \<^verbatim>\<open>means_df\<close> had before, since the cell rebinds all three.
\<close>

theorem summarize_idempotent:
  "(summarize ar g = Inr g' \<longrightarrow> summarize ar g' = Inr g') \<and>
   map_sum id g_means_df (summarize ar (g\<lparr>g_means := ms, g_kb_names := ns, g_means_df := md\<rparr>))
     = map_sum id g_means_df (summarize ar g)"
  by (auto simp: summarize_def split: sum.splits)

theorem summarize_idempotent_witness:
  "\<exists>g'. summarize exact (globals_of [(''KBA'', df_of [Some (1 / 4), None, Some (3 / 4)])])
          = Inr g' \<and>
        summarize exact g' = Inr g' \<and>
        g_means_df g' = [(Some ''Amazon Titan Embedding'', const_row (1 / 2))]"
proof -
  let ?g = "globals_of [(''KBA'', df_of [Some (1 / 4), None, Some (3 / 4)])]"
  have "\<exists>g'. summarize exact ?g = Inr g' \<and>
          g_means_df g' = [(Some ''Amazon Titan Embedding'', const_row (1 / 2))]"
    by (simp add: summarize_def globals_of_def df_of_def metrics_def numeric_cols_def mean_def
        filled_def exact_def kb_A_def kb_B_def display_names_def const_row_def)
  then obtain g' where s: "summarize exact ?g = Inr g'" and
    m: "g_means_df g' = [(Some ''Amazon Titan Embedding'', const_row (1 / 2))]" by blast
  from summarize_idempotent [of exact ?g g'] s have i: "summarize exact g' = Inr g'" by blast
  show ?thesis by (rule exI [of _ g']) (intro conjI s i m)
qed

section \<open>Failures of the retrieval and generation calls\<close>

lemma from_chain_type_Inr:
  "fst (from_chain_type llm retrieve template rt s q) = Inr resp \<Longrightarrow>
   \<exists>s1. retrieve s rt q = (Inr (source_documents resp), s1) \<and>
        fst (llm s1 (template (source_documents resp) q)) = Inr (result resp)"
  by (auto simp: from_chain_type_def split: prod.splits sum.splits)

lemma from_chain_type_retrieve_raises:
  "fst (retrieve s rt q) = Inl e \<Longrightarrow> fst (from_chain_type llm retrieve template rt s q) = Inl e"
  by (auto simp: from_chain_type_def split: prod.splits sum.splits)

lemma from_chain_type_llm_raises:
  "retrieve s rt q = (Inr docs, s1) \<Longrightarrow> fst (llm s1 (template docs q)) = Inl e \<Longrightarrow>
   fst (from_chain_type llm retrieve template rt s q) = Inl e"
  by (auto simp: from_chain_type_def split: prod.splits sum.splits)

text \<open>
  A retrieval that returns no context is not a failure: the record is built, with an
  empty list of contexts.
\<close>

theorem zero_contexts_record_built:
  "fst (execute_rag (from_chain_type llm_ok retrieve_nothing template_stuff) [''q1''] [''g1'']
          retriever_A ())
     = Inr (''KBA'', \<lparr>question = [''q1''], answer = [''answer''], contexts = [[]],
                      ground_truth = [''g1'']\<rparr>)"
  by (simp add: execute_rag_def from_chain_type_def llm_ok_def retrieve_nothing_def
      retriever_A_def)

text \<open>
  C5, as amended. While the records of a knowledge base are built, the questions before
  index \<open>i\<close> having been answered: when the retrieval raises on question \<open>i\<close>,
  \<^verbatim>\<open>execute_rag\<close> ends with that exception, and when the retrieval returns and the model
  call raises, with that one; in both cases it returns no dict, so no record exists for
  the pair. A retrieval that returns zero contexts is not a failure: when every chain
  call returns, \<^verbatim>\<open>execute_rag\<close> returns its dict, and the contexts entry of question \<open>i\<close>
  is the empty list.
\<close>

theorem execute_rag_port_failure:
  assumes "i < length qs"
    and "qa_chain = from_chain_type llm retrieve template rt"
    and "\<forall>j<i. \<exists>resp. fst (qa_chain (state_before qa_chain qs s j) (qs ! j)) = Inr resp"
    and "si = state_before qa_chain qs s i"
  shows "(fst (retrieve si rt (qs ! i)) = Inl e \<longrightarrow>
            fst (execute_rag (from_chain_type llm retrieve template) qs gt rt s) = Inl e) \<and>
         (retrieve si rt (qs ! i) = (Inr docs, s1) \<and>
          fst (llm s1 (template docs (qs ! i))) = Inl e \<longrightarrow>
            fst (execute_rag (from_chain_type llm retrieve template) qs gt rt s) = Inl e) \<and>
         (fst (retrieve si rt (qs ! i)) = Inr [] \<and>
          (\<forall>j<length qs.
             \<exists>resp. fst (qa_chain (state_before qa_chain qs s j) (qs ! j)) = Inr resp) \<longrightarrow>
            (\<exists>d s'. execute_rag (from_chain_type llm retrieve template) qs gt rt s
                       = (Inr (knowledge_base_id rt, d), s') \<and>
                    length (contexts d) = length qs \<and>
                    contexts d ! i = []))"
proof (intro conjI impI)
  assume "fst (retrieve si rt (qs ! i)) = Inl e"
  then have "fst (qa_chain si (qs ! i)) = Inl e"
    unfolding assms(2) by (rule from_chain_type_retrieve_raises)
  then have "fst (qa_chain (state_before qa_chain qs s i) (qs ! i)) = Inl e"
    using assms(4) by simp
  from invoke_loop_first_failure [OF assms(1,3) this]
  show "fst (execute_rag (from_chain_type llm retrieve template) qs gt rt s) = Inl e"
    by (simp add: execute_rag_Inl assms(2))
next
  assume "retrieve si rt (qs ! i) = (Inr docs, s1) \<and>
          fst (llm s1 (template docs (qs ! i))) = Inl e"
  then have "fst (qa_chain si (qs ! i)) = Inl e"
    unfolding assms(2) by (auto intro: from_chain_type_llm_raises)
  then have "fst (qa_chain (state_before qa_chain qs s i) (qs ! i)) = Inl e"
    using assms(4) by simp
  from invoke_loop_first_failure [OF assms(1,3) this]
  show "fst (execute_rag (from_chain_type llm retrieve template) qs gt rt s) = Inl e"
    by (simp add: execute_rag_Inl assms(2))
next
  assume a: "fst (retrieve si rt (qs ! i)) = Inr [] \<and>
          (\<forall>j<length qs.
             \<exists>resp. fst (qa_chain (state_before qa_chain qs s j) (qs ! j)) = Inr resp)"
  then have empty: "fst (retrieve si rt (qs ! i)) = Inr []"
    and every: "\<forall>j<length qs.
             \<exists>resp. fst (qa_chain (state_before qa_chain qs s j) (qs ! j)) = Inr resp"
    by simp_all
  from invoke_loop_all_succeed [OF every, of "[]" "[]"] obtain a c s' where
    loop: "invoke_loop qa_chain qs [] [] s = (Inr (a, c), s')" by blast
  let ?d = "\<lparr>question = qs, answer = a, contexts = c, ground_truth = gt\<rparr>"
  from loop have ex: "execute_rag (from_chain_type llm retrieve template) qs gt rt s
      = (Inr (knowledge_base_id rt, ?d), s')"
    by (simp add: execute_rag_def assms(2))
  from execute_rag_Inr [OF ex] have len: "length (contexts ?d) = length qs" by simp
  from execute_rag_nth [OF ex assms(1)] obtain resp where
    r: "fst (from_chain_type llm retrieve template rt
               (state_before (from_chain_type llm retrieve template rt) qs s i) (qs ! i))
          = Inr resp" and
    ci: "contexts ?d ! i = map page_content (source_documents resp)" by blast
  from from_chain_type_Inr [OF r] obtain s2 where
    "retrieve (state_before (from_chain_type llm retrieve template rt) qs s i) rt (qs ! i)
       = (Inr (source_documents resp), s2)" by blast
  with empty have "source_documents resp = []" by (simp add: assms(2,4))
  with ci have "contexts ?d ! i = []" by simp
  with ex len show "\<exists>d s'. execute_rag (from_chain_type llm retrieve template) qs gt rt s
                       = (Inr (knowledge_base_id rt, d), s') \<and>
                    length (contexts d) = length qs \<and>
                    contexts d ! i = []" by blast
qed

theorem execute_rag_port_failure_witness:
  "(1::nat) < length [''q1'', ''q2''] \<and>
   state_before (from_chain_type llm_counting retrieve_raises_at_1 template_stuff retriever_A)
     [''q1'', ''q2''] 0 1 = 1 \<and>
   fst (retrieve_raises_at_1 1 retriever_A ([''q1'', ''q2''] ! 1)) = Inl RetrievalError \<and>
   fst (execute_rag (from_chain_type llm_counting retrieve_raises_at_1 template_stuff)
          [''q1'', ''q2''] [''g1'', ''g2''] retriever_A 0) = Inl RetrievalError \<and>
   retrieve_always 1 retriever_A ([''q1'', ''q2''] ! 1) = (Inr one_document, 1) \<and>
   fst (llm_raises_at_1 1 (template_stuff one_document ([''q1'', ''q2''] ! 1)))
     = Inl GenerationError \<and>
   fst (execute_rag (from_chain_type llm_raises_at_1 retrieve_always template_stuff)
          [''q1'', ''q2''] [''g1'', ''g2''] retriever_A 0) = Inl GenerationError \<and>
   fst (retrieve_empty_at_1 1 retriever_A ([''q1'', ''q2''] ! 1)) = Inr [] \<and>
   (\<exists>d s'. execute_rag (from_chain_type llm_counting retrieve_empty_at_1 template_stuff)
              [''q1'', ''q2''] [''g1'', ''g2''] retriever_A 0 = (Inr (''KBA'', d), s') \<and>
           length (contexts d) = 2 \<and> contexts d ! 1 = [])"
proof -
  let ?Q = "[''q1'', ''q2'']" and ?G = "[''g1'', ''g2'']"
  let ?qa1 = "from_chain_type llm_counting retrieve_raises_at_1 template_stuff retriever_A"
  let ?qa2 = "from_chain_type llm_raises_at_1 retrieve_always template_stuff retriever_A"
  let ?qa3 = "from_chain_type llm_counting retrieve_empty_at_1 template_stuff retriever_A"
  have i: "(1::nat) < length ?Q" by simp

  text \<open>The retrieval raises on the second question.\<close>
  have st1: "state_before ?qa1 ?Q 0 1 = 1"
    by (simp add: from_chain_type_def retrieve_raises_at_1_def llm_counting_def)
  have early1: "\<forall>j<1. \<exists>resp. fst (?qa1 (state_before ?qa1 ?Q 0 j) (?Q ! j)) = Inr resp"
    by (simp add: from_chain_type_def retrieve_raises_at_1_def llm_counting_def)
  have a1: "fst (retrieve_raises_at_1 1 retriever_A (?Q ! 1)) = Inl RetrievalError"
    by (simp add: retrieve_raises_at_1_def)
  from execute_rag_port_failure [OF i refl early1 st1 [symmetric],
      where e = RetrievalError and gt = ?G] a1
  have r1: "fst (execute_rag (from_chain_type llm_counting retrieve_raises_at_1 template_stuff)
          ?Q ?G retriever_A 0) = Inl RetrievalError" by blast

  text \<open>The model call raises on the second question.\<close>
  have st2: "state_before ?qa2 ?Q 0 1 = 1"
    by (simp add: from_chain_type_def retrieve_always_def llm_raises_at_1_def)
  have early2: "\<forall>j<1. \<exists>resp. fst (?qa2 (state_before ?qa2 ?Q 0 j) (?Q ! j)) = Inr resp"
    by (simp add: from_chain_type_def retrieve_always_def llm_raises_at_1_def)
  have a2: "retrieve_always 1 retriever_A (?Q ! 1) = (Inr one_document, 1)"
    by (simp add: retrieve_always_def)
  have a3: "fst (llm_raises_at_1 1 (template_stuff one_document (?Q ! 1))) = Inl GenerationError"
    by (simp add: llm_raises_at_1_def)
  from execute_rag_port_failure [OF i refl early2 st2 [symmetric],
      where e = GenerationError and gt = ?G and docs = one_document and ?s1.0 = 1] a2 a3
  have r2: "fst (execute_rag (from_chain_type llm_raises_at_1 retrieve_always template_stuff)
          ?Q ?G retriever_A 0) = Inl GenerationError" by blast

  text \<open>The retrieval returns no document for the second question.\<close>
  have st3: "state_before ?qa3 ?Q 0 1 = 1"
    by (simp add: from_chain_type_def retrieve_empty_at_1_def llm_counting_def)
  have early3: "\<forall>j<1. \<exists>resp. fst (?qa3 (state_before ?qa3 ?Q 0 j) (?Q ! j)) = Inr resp"
    by (simp add: from_chain_type_def retrieve_empty_at_1_def llm_counting_def)
  have every3: "\<forall>j<length ?Q. \<exists>resp. fst (?qa3 (state_before ?qa3 ?Q 0 j) (?Q ! j)) = Inr resp"
  proof (intro allI impI)
    fix j assume "j < length ?Q"
    then have "j = 0 \<or> j = 1" by auto
    then show "\<exists>resp. fst (?qa3 (state_before ?qa3 ?Q 0 j) (?Q ! j)) = Inr resp"
      by (auto simp: from_chain_type_def retrieve_empty_at_1_def llm_counting_def)
  qed
  have a4: "fst (retrieve_empty_at_1 1 retriever_A (?Q ! 1)) = Inr []"
    by (simp add: retrieve_empty_at_1_def)
  from execute_rag_port_failure [OF i refl early3 st3 [symmetric], where gt = ?G] a4 every3
  obtain d s' where
    "execute_rag (from_chain_type llm_counting retrieve_empty_at_1 template_stuff)
       ?Q ?G retriever_A 0 = (Inr (knowledge_base_id retriever_A, d), s')"
    "length (contexts d) = length ?Q" "contexts d ! 1 = []" by blast
  then have r3: "\<exists>d s'. execute_rag (from_chain_type llm_counting retrieve_empty_at_1 template_stuff)
              ?Q ?G retriever_A 0 = (Inr (''KBA'', d), s') \<and>
           length (contexts d) = 2 \<and> contexts d ! 1 = []"
    by (auto simp: retriever_A_def)
  show ?thesis by (intro conjI i st1 a1 r1 a2 a3 r2 a4 r3)
qed

section \<open>The retrieval limit\<close>





end
